theory Spec2Isabelle
  imports
    Complex_Main
    "HOL-Library.AList"
    "HOL-Library.Char_ord"
    "HOL-Library.List_Lexorder"
begin

section \<open>The sales dashboard of \<^verbatim>\<open>dashboard.py\<close>\<close>

text \<open>
  The script is a linear pipeline: load the uploaded file, guess the semantic columns by
  fuzzy matching of the headers, clean the date and numeric columns, filter by category
  values and by a date range, aggregate, and offer the filtered table for download.

  Python values are modelled as follows. A \<^verbatim>\<open>str\<close> is a \<^typ>\<open>string\<close> whose characters
  are code points below 256 (the script decodes delimited text as ISO-8859-1); a float is a
  \<^typ>\<open>real\<close>; an exception is a value of \<open>error\<close> on the left of a sum. Functions of
  the libraries the script imports (rapidfuzz, pandas, streamlit) are not part of the script:
  they are parameters of the definitions that call them, and each has one concrete instance
  below on which the definitions can be evaluated.
\<close>

subsection \<open>Exceptions\<close>

datatype error =
    ValueError        \<comment> \<open>\<^verbatim>\<open>max()\<close> of an empty sequence\<close>
  | KeyError          \<comment> \<open>\<^verbatim>\<open>df[col]\<close> for a header the table does not have\<close>
  | AttributeError    \<comment> \<open>\<^verbatim>\<open>.dt\<close> on a column that is not datetime-like\<close>
  | TypeError         \<comment> \<open>a column that is not datetime-like compared with a Timestamp\<close>
  | Stopped string    \<comment> \<open>\<^verbatim>\<open>st.error(msg); st.stop()\<close>: the run ends with a blocking message\<close>

subsection \<open>Strings\<close>

text \<open>\<^verbatim>\<open>str.lower()\<close> on code points below 256: the ASCII capitals and the Latin-1
  capitals U+00C0 .. U+00DE (U+00D7, the multiplication sign, is not a letter).\<close>

definition lower_chr :: "char \<Rightarrow> char" where
  "lower_chr c =
     (let n = (of_char c :: nat)
      in if (65 \<le> n \<and> n \<le> 90) \<or> (192 \<le> n \<and> n \<le> 222 \<and> n \<noteq> 215)
         then char_of (n + 32) else c)"

definition lower :: "string \<Rightarrow> string" where
  "lower s = map lower_chr s"

text \<open>\<^verbatim>\<open>str.isspace()\<close> on one code point below 256, and \<^verbatim>\<open>str.strip()\<close>.\<close>

definition is_space :: "char \<Rightarrow> bool" where
  "is_space c = ((of_char c :: nat) \<in> {9, 10, 11, 12, 13, 28, 29, 30, 31, 32, 133, 160})"

definition strip :: "string \<Rightarrow> string" where
  "strip s = rev (dropWhile is_space (rev (dropWhile is_space s)))"

text \<open>\<^verbatim>\<open>s.replace(c, '')\<close> for a one-character pattern: every occurrence is deleted.\<close>

definition delete_chr :: "char \<Rightarrow> string \<Rightarrow> string" where
  "delete_chr c s = filter (\<lambda>x. x \<noteq> c) s"

text \<open>\<^verbatim>\<open>s.endswith(suffix)\<close>.\<close>

definition endswith :: "string \<Rightarrow> string \<Rightarrow> bool" where
  "endswith s suf =
     (length suf \<le> length s \<and> drop (length s - length suf) s = suf)"

subsection \<open>The similarity score\<close>

text \<open>
  Modelled from the spec: \<^verbatim>\<open>fuzz.ratio\<close> is imported from rapidfuzz and is not part of the
  script; the spec calls it a string similarity in [0,100]. Every definition below takes
  the score as a parameter \<open>fz\<close>. The instance \<open>ratio\<close> is the normalised insertion/deletion
  similarity that rapidfuzz documents for \<^verbatim>\<open>fuzz.ratio\<close>: with \<open>l\<close> the length of a longest
  common subsequence, the score is \<open>100 * 2 * l / (len a + len b)\<close>, and 100 for two empty
  strings.
\<close>

fun lcs :: "'a list \<Rightarrow> 'a list \<Rightarrow> nat" where
  "lcs [] ys = 0"
| "lcs (x # xs) [] = 0"
| "lcs (x # xs) (y # ys) =
     (if x = y then Suc (lcs xs ys) else max (lcs xs (y # ys)) (lcs (x # xs) ys))"

definition ratio :: "string \<Rightarrow> string \<Rightarrow> real" where
  "ratio a b =
     (if a = [] \<and> b = [] then 100
      else 100 * real (2 * lcs a b) / real (length a + length b))"

subsection \<open>The column resolver: \<^verbatim>\<open>find_best_column\<close>\<close>

text \<open>Python's \<^verbatim>\<open>max\<close> of a list: \<^verbatim>\<open>ValueError\<close> on the empty list; otherwise the running
  maximum is replaced only by a strictly greater item.\<close>

definition py_max :: "real list \<Rightarrow> error + real" where
  "py_max xs =
     (case xs of
        [] \<Rightarrow> Inl ValueError
      | x # rest \<Rightarrow> Inr (fold (\<lambda>item m. if item > m then item else m) rest x))"

text \<open>The loop of lines 13 to 15. The dict \<^verbatim>\<open>matches\<close> is an association list in insertion
  order: assigning to a key that is present keeps its place, a new key goes to the end.\<close>

fun build_matches ::
  "(string \<Rightarrow> string \<Rightarrow> real) \<Rightarrow> string list \<Rightarrow> string list \<Rightarrow> (string \<times> real) list
     \<Rightarrow> error + (string \<times> real) list" where
  "build_matches fz possible_names [] matches = Inr matches"
| "build_matches fz possible_names (col # rest) matches =
     (case py_max (map (\<lambda>key. fz (lower col) (lower key)) possible_names) of
        Inl e \<Rightarrow> Inl e
      | Inr score \<Rightarrow> build_matches fz possible_names rest (AList.update col score matches))"

text \<open>\<^verbatim>\<open>max(matches, key=matches.get)\<close> walks the keys in insertion order and compares the
  values stored under them, so it is a walk over the items that keeps the first item of
  maximal value.\<close>

fun max_item :: "('k \<times> real) \<Rightarrow> ('k \<times> real) list \<Rightarrow> ('k \<times> real)" where
  "max_item best [] = best"
| "max_item best (kv # rest) = max_item (if snd kv > snd best then kv else best) rest"

definition find_best_column ::
  "(string \<Rightarrow> string \<Rightarrow> real) \<Rightarrow> string list \<Rightarrow> string list \<Rightarrow> error + string option" where
  "find_best_column fz possible_names column_list =
     (case build_matches fz possible_names column_list [] of
        Inl e \<Rightarrow> Inl e
      | Inr matches \<Rightarrow>
          (case matches of
             [] \<Rightarrow> Inl ValueError
           | kv # rest \<Rightarrow>
               (let best_match = max_item kv rest
                in Inr (if snd best_match > 60 then Some (fst best_match) else None))))"

text \<open>The score of one header against the candidate names of a role.\<close>

definition header_score :: "(string \<Rightarrow> string \<Rightarrow> real) \<Rightarrow> string list \<Rightarrow> string \<Rightarrow> real" where
  "header_score fz possible_names col =
     Max ((\<lambda>key. fz (lower col) (lower key)) ` set possible_names)"

subsection \<open>Tables\<close>

text \<open>
  A pandas Timestamp, as far as the script looks at it: the calendar date and the time of
  day (in nanoseconds since midnight). Timestamps are compared chronologically.
\<close>

datatype timestamp = Timestamp (year: nat) (month: nat) (day: nat) (tod: nat)

definition ts_le :: "timestamp \<Rightarrow> timestamp \<Rightarrow> bool" where
  "ts_le a b =
     (year a < year b \<or> (year a = year b \<and>
       (month a < month b \<or> (month a = month b \<and>
         (day a < day b \<or> (day a = day b \<and> tod a \<le> tod b))))))"

text \<open>
  A cell holds a string, a number, a timestamp, or is missing (\<open>Null\<close>: pandas' NaN and
  NaT). A table is the ordered list of its headers and the list of its rows; a row
  associates headers with cells, and a header a row does not mention is missing there.
\<close>

datatype cell = Str string | Num real | Date timestamp | Null

type_synonym row = "(string \<times> cell) list"

record table =
  columns :: "string list"
  rows :: "row list"

definition value_at :: "row \<Rightarrow> string \<Rightarrow> cell" where
  "value_at r col = (case map_of r col of Some v \<Rightarrow> v | None \<Rightarrow> Null)"

text \<open>\<^verbatim>\<open>df[col]\<close>, read: the column's cells in row order, or \<^verbatim>\<open>KeyError\<close>.\<close>

definition getcol :: "table \<Rightarrow> string \<Rightarrow> error + cell list" where
  "getcol df col =
     (if col \<in> set (columns df) then Inr (map (\<lambda>r. value_at r col) (rows df))
      else Inl KeyError)"

text \<open>\<^verbatim>\<open>df[col] = values\<close>: an existing column is replaced where it stands, a new one is
  added after the last.\<close>

definition setcol :: "table \<Rightarrow> string \<Rightarrow> cell list \<Rightarrow> table" where
  "setcol df col vals =
     \<lparr>columns = (if col \<in> set (columns df) then columns df else columns df @ [col]),
      rows = map (\<lambda>(r, v). AList.update col v r) (zip (rows df) vals)\<rparr>"

text \<open>\<^verbatim>\<open>df[mask]\<close>: the rows whose entry of the boolean mask is true.\<close>

definition select_rows :: "table \<Rightarrow> bool list \<Rightarrow> table" where
  "select_rows df keep = df\<lparr>rows := map fst (filter snd (zip (rows df) keep))\<rparr>"

subsection \<open>The role bindings (lines 54 to 64)\<close>

record binding =
  date_col :: "string option"
  sales_col :: "string option"
  profit_col :: "string option"
  product_col :: "string option"
  region_col :: "string option"
  state_col :: "string option"
  city_col :: "string option"
  retailer_col :: "string option"
  quantity_col :: "string option"

text \<open>\<^verbatim>\<open>if col:\<close> on the result of \<^verbatim>\<open>find_best_column\<close>: \<^verbatim>\<open>None\<close> and the empty string
  are false.\<close>

fun truthy :: "string option \<Rightarrow> bool" where
  "truthy None = False"
| "truthy (Some c) = (c \<noteq> [])"

definition then_do :: "error + 'a \<Rightarrow> ('a \<Rightarrow> error + 'b) \<Rightarrow> error + 'b" where
  "then_do m f = (case m of Inl e \<Rightarrow> Inl e | Inr x \<Rightarrow> f x)"

definition detect_columns :: "(string \<Rightarrow> string \<Rightarrow> real) \<Rightarrow> table \<Rightarrow> error + binding" where
  "detect_columns fz df =
     (let cols = columns df in
      then_do (find_best_column fz [''InvoiceDate'', ''Order Date'', ''Date''] cols) (\<lambda>dc.
      then_do (find_best_column fz [''TotalSales'', ''Sales''] cols) (\<lambda>sc.
      then_do (find_best_column fz [''OperatingProfit'', ''Profit''] cols) (\<lambda>pc.
      then_do (find_best_column fz [''Product'', ''Category'', ''Product Name''] cols) (\<lambda>prc.
      then_do (find_best_column fz [''Region''] cols) (\<lambda>rc.
      then_do (find_best_column fz [''State''] cols) (\<lambda>stc.
      then_do (find_best_column fz [''City''] cols) (\<lambda>cc.
      then_do (find_best_column fz [''Retailer''] cols) (\<lambda>rtc.
      then_do (find_best_column fz [''UnitsSold'', ''Quantity''] cols) (\<lambda>qc.
      Inr \<lparr>date_col = dc, sales_col = sc, profit_col = pc, product_col = prc,
           region_col = rc, state_col = stc, city_col = cc, retailer_col = rtc,
           quantity_col = qc\<rparr>))))))))))"

subsection \<open>Cleaning (lines 69 to 76)\<close>

text \<open>
  \<^verbatim>\<open>pd.to_datetime(column, errors='coerce')\<close>: the parser \<open>to_datetime\<close> is pandas'; a cell it
  rejects becomes missing instead of raising.
\<close>

definition coerce_date :: "(cell \<Rightarrow> timestamp option) \<Rightarrow> cell \<Rightarrow> cell" where
  "coerce_date to_datetime v = (case to_datetime v of Some t \<Rightarrow> Date t | None \<Rightarrow> Null)"

definition clean_dates :: "(cell \<Rightarrow> timestamp option) \<Rightarrow> table \<Rightarrow> string option \<Rightarrow> error + table" where
  "clean_dates to_datetime df col =
     (case col of
        None \<Rightarrow> Inr df
      | Some c \<Rightarrow>
          if c = [] then Inr df
          else then_do (getcol df c) (\<lambda>vals.
                 Inr (setcol df c (map (coerce_date to_datetime) vals))))"

text \<open>
  \<^verbatim>\<open>.astype(str)\<close> leaves a string as it is; how pandas prints any other cell is the
  parameter \<open>repr\<close>.
\<close>

fun astype_str :: "(cell \<Rightarrow> string) \<Rightarrow> cell \<Rightarrow> string" where
  "astype_str repr (Str s) = s"
| "astype_str repr v = repr v"

text \<open>\<^verbatim>\<open>.str.replace(',', '').str.replace('$', '').str.strip()\<close> on one cell.\<close>

definition clean_text :: "string \<Rightarrow> string" where
  "clean_text s = strip (delete_chr CHR ''$'' (delete_chr CHR '','' s))"

text \<open>\<^verbatim>\<open>pd.to_numeric(column, errors='coerce').fillna(0)\<close> on one cell: the parser
  \<open>to_numeric\<close> is pandas'; a string it rejects becomes missing, and a missing value
  becomes zero.\<close>

definition coerce_numeric :: "(string \<Rightarrow> real option) \<Rightarrow> string \<Rightarrow> cell" where
  "coerce_numeric to_numeric s = (case to_numeric s of Some x \<Rightarrow> Num x | None \<Rightarrow> Null)"

definition fillna0 :: "cell \<Rightarrow> cell" where
  "fillna0 v = (case v of Null \<Rightarrow> Num 0 | _ \<Rightarrow> v)"

definition clean_numeric_cell :: "(cell \<Rightarrow> string) \<Rightarrow> (string \<Rightarrow> real option) \<Rightarrow> cell \<Rightarrow> cell" where
  "clean_numeric_cell repr to_numeric v =
     fillna0 (coerce_numeric to_numeric (clean_text (astype_str repr v)))"

text \<open>The loop over \<^verbatim>\<open>numeric_cols\<close>.\<close>

fun clean_numeric ::
  "(cell \<Rightarrow> string) \<Rightarrow> (string \<Rightarrow> real option) \<Rightarrow> table \<Rightarrow> string option list \<Rightarrow> error + table" where
  "clean_numeric repr to_numeric df [] = Inr df"
| "clean_numeric repr to_numeric df (col # rest) =
     (case col of
        None \<Rightarrow> clean_numeric repr to_numeric df rest
      | Some c \<Rightarrow>
          if c = [] then clean_numeric repr to_numeric df rest
          else then_do (getcol df c) (\<lambda>vals.
                 clean_numeric repr to_numeric
                   (setcol df c (map (clean_numeric_cell repr to_numeric) vals)) rest))"

definition clean ::
  "(cell \<Rightarrow> timestamp option) \<Rightarrow> (cell \<Rightarrow> string) \<Rightarrow> (string \<Rightarrow> real option) \<Rightarrow> table \<Rightarrow> binding
     \<Rightarrow> error + table" where
  "clean to_datetime repr to_numeric df b =
     then_do (clean_dates to_datetime df (date_col b)) (\<lambda>df1.
       clean_numeric repr to_numeric df1 [sales_col b, profit_col b, quantity_col b])"

subsection \<open>Filtering (lines 81 to 117)\<close>

text \<open>The sidebar: a dimension whose column is unbound has the empty selection; otherwise
  the selection is what the user chose in the widget.\<close>

definition pick :: "string option \<Rightarrow> cell list \<Rightarrow> cell list" where
  "pick col chosen = (if truthy col then chosen else [])"

definition isin :: "cell list \<Rightarrow> cell list \<Rightarrow> bool list" where
  "isin vals chosen = map (\<lambda>v. v \<in> set chosen) vals"

text \<open>\<^verbatim>\<open>if region and region_col: filtered_df = filtered_df[filtered_df[region_col].isin(region)]\<close>\<close>

definition filter_dim :: "table \<Rightarrow> cell list \<Rightarrow> string option \<Rightarrow> error + table" where
  "filter_dim df chosen col =
     (case col of
        None \<Rightarrow> Inr df
      | Some c \<Rightarrow>
          if chosen \<noteq> [] \<and> c \<noteq> []
          then then_do (getcol df c) (\<lambda>vals. Inr (select_rows df (isin vals chosen)))
          else Inr df)"

definition dimension_filter ::
  "table \<Rightarrow> binding \<Rightarrow> cell list \<Rightarrow> cell list \<Rightarrow> cell list \<Rightarrow> error + table" where
  "dimension_filter df b region state city =
     then_do (filter_dim df region (region_col b)) (\<lambda>df1.
     then_do (filter_dim df1 state (state_col b)) (\<lambda>df2.
       filter_dim df2 city (city_col b)))"

text \<open>
  A column compared with a Timestamp, cell by cell: a missing date compares false, and a
  column that holds anything but dates raises.
\<close>

fun compare_col :: "(timestamp \<Rightarrow> bool) \<Rightarrow> cell list \<Rightarrow> error + bool list" where
  "compare_col p [] = Inr []"
| "compare_col p (Date t # vs) = then_do (compare_col p vs) (\<lambda>bs. Inr (p t # bs))"
| "compare_col p (Null # vs) = then_do (compare_col p vs) (\<lambda>bs. Inr (False # bs))"
| "compare_col p (v # vs) = Inl TypeError"

text \<open>Lines 110 to 117; \<open>date1\<close> and \<open>date2\<close> are what the two date pickers return.\<close>

definition date_filter ::
  "table \<Rightarrow> string option \<Rightarrow> timestamp \<Rightarrow> timestamp \<Rightarrow> error + table" where
  "date_filter df col date1 date2 =
     (case col of
        None \<Rightarrow> Inr df
      | Some c \<Rightarrow>
          if c = [] then Inr df
          else then_do (getcol df c) (\<lambda>vals.
               then_do (compare_col (\<lambda>t. ts_le date1 t) vals) (\<lambda>ge.
               then_do (compare_col (\<lambda>t. ts_le t date2) vals) (\<lambda>le.
                 Inr (select_rows df (map (\<lambda>(a, b). a \<and> b) (zip ge le)))))))"

definition filtered_data ::
  "table \<Rightarrow> binding \<Rightarrow> cell list \<Rightarrow> cell list \<Rightarrow> cell list \<Rightarrow> timestamp \<Rightarrow> timestamp
     \<Rightarrow> error + table" where
  "filtered_data df b region state city date1 date2 =
     then_do (dimension_filter df b (pick (region_col b) region) (pick (state_col b) state)
                (pick (city_col b) city)) (\<lambda>filtered_df.
       date_filter filtered_df (date_col b) date1 date2)"

subsection \<open>Sales over time (lines 141 to 146)\<close>

text \<open>Python's \<^verbatim>\<open>str\<close> of a natural number, and zero padding to a width.\<close>

definition digit_chr :: "nat \<Rightarrow> char" where
  "digit_chr d = char_of (48 + d)"

fun str_of_nat :: "nat \<Rightarrow> string" where
  "str_of_nat n =
     (if n < 10 then [digit_chr n] else str_of_nat (n div 10) @ [digit_chr (n mod 10)])"

declare str_of_nat.simps [simp del]

definition zfill :: "nat \<Rightarrow> string \<Rightarrow> string" where
  "zfill w s = replicate (w - length s) CHR ''0'' @ s"

text \<open>\<^verbatim>\<open>.dt.to_period("M").astype(str)\<close>: a date becomes its year, a hyphen and its
  two-digit month; a missing date becomes the text NaT; on a column that holds anything
  else the accessor raises.\<close>

definition period_str :: "nat \<times> nat \<Rightarrow> string" where
  "period_str p = str_of_nat (fst p) @ ''-'' @ zfill 2 (str_of_nat (snd p))"

definition period_of :: "timestamp \<Rightarrow> nat \<times> nat" where
  "period_of t = (year t, month t)"

fun month_year :: "cell list \<Rightarrow> error + cell list" where
  "month_year [] = Inr []"
| "month_year (Date t # vs) =
     then_do (month_year vs) (\<lambda>ms. Inr (Str (period_str (period_of t)) # ms))"
| "month_year (Null # vs) = then_do (month_year vs) (\<lambda>ms. Inr (Str ''NaT'' # ms))"
| "month_year (v # vs) = Inl AttributeError"

text \<open>The sum of a numeric column skips missing values.\<close>

fun num_of :: "cell \<Rightarrow> real" where
  "num_of (Num x) = x"
| "num_of v = 0"

text \<open>
  \<^verbatim>\<open>df.groupby(key, as_index=False)[val].sum()\<close> for a key column of strings: one row
  for each distinct key, the keys sorted (by code points, as Python compares strings), with
  the sum of the value column over the rows of that key.
\<close>

fun str_keys :: "cell list \<Rightarrow> string list" where
  "str_keys [] = []"
| "str_keys (Str s # vs) = s # str_keys vs"
| "str_keys (v # vs) = str_keys vs"

definition group_sum :: "cell list \<Rightarrow> cell list \<Rightarrow> string \<Rightarrow> real" where
  "group_sum keys vals k =
     sum_list (map (\<lambda>(k', v). num_of v) (filter (\<lambda>(k', v). k' = Str k) (zip keys vals)))"

definition groupby_sum :: "table \<Rightarrow> string \<Rightarrow> string \<Rightarrow> error + table" where
  "groupby_sum df key val =
     then_do (getcol df key) (\<lambda>keys.
     then_do (getcol df val) (\<lambda>vals.
       Inr \<lparr>columns = [key, val],
            rows = map (\<lambda>k. [(key, Str k), (val, Num (group_sum keys vals k))])
                     (sort (remdups (str_keys keys)))\<rparr>))"

text \<open>The block under \<^verbatim>\<open>if date_col and sales_col:\<close>. It assigns the new column to
  \<^verbatim>\<open>filtered_df\<close> itself, so it returns the table as it stands afterwards together with the
  aggregate (absent when a role is unbound).\<close>

definition sales_over_time :: "table \<Rightarrow> binding \<Rightarrow> error + table \<times> table option" where
  "sales_over_time filtered_df b =
     (case (date_col b, sales_col b) of
        (Some dc, Some sc) \<Rightarrow>
          if dc \<noteq> [] \<and> sc \<noteq> []
          then then_do (getcol filtered_df dc) (\<lambda>dates.
               then_do (month_year dates) (\<lambda>ms.
               let filtered_df' = setcol filtered_df ''Month_Year'' ms in
               then_do (groupby_sum filtered_df' ''Month_Year'' sc) (\<lambda>time_df.
                 Inr (filtered_df', Some time_df))))
          else Inr (filtered_df, None)
      | _ \<Rightarrow> Inr (filtered_df, None))"

subsection \<open>The download (lines 180 to 182)\<close>

text \<open>What \<^verbatim>\<open>st.download_button\<close> is given. The serialiser
  \<^verbatim>\<open>to_csv(index=False).encode('utf-8')\<close> is pandas' and is the parameter \<open>to_csv\<close>.\<close>

record download =
  data :: string
  file_name :: string
  mime :: string

definition download_button :: "(table \<Rightarrow> string) \<Rightarrow> table \<Rightarrow> download" where
  "download_button to_csv filtered_df =
     \<lparr>data = to_csv filtered_df, file_name = ''Filtered_Data.csv'', mime = ''text/csv''\<rparr>"

text \<open>Lines 141 to 182 in the order the script runs them, as far as they touch
  \<^verbatim>\<open>filtered_df\<close>: the time series block, then the download.\<close>

definition visualise_and_export ::
  "(table \<Rightarrow> string) \<Rightarrow> table \<Rightarrow> binding \<Rightarrow> error + table option \<times> download" where
  "visualise_and_export to_csv filtered_df b =
     then_do (sales_over_time filtered_df b) (\<lambda>(filtered_df', time_df).
       Inr (time_df, download_button to_csv filtered_df'))"

subsection \<open>Loading the file (lines 31 to 51)\<close>

text \<open>
  \<open>read_csv\<close> and \<open>read_excel\<close> are pandas' decoders: given the uploaded bytes (and a
  delimiter) they return a table or raise, which is \<open>Inl\<close> of the exception's text.
\<close>

fun try_delimiters :: "(char \<Rightarrow> string + table) \<Rightarrow> char list \<Rightarrow> table option" where
  "try_delimiters rd [] = None"
| "try_delimiters rd (delimiter # rest) =
     (case rd delimiter of
        Inl e \<Rightarrow> try_delimiters rd rest
      | Inr df \<Rightarrow> if length (columns df) > 1 then Some df else try_delimiters rd rest)"

definition load_file ::
  "(string \<Rightarrow> char \<Rightarrow> string + table) \<Rightarrow> (string \<Rightarrow> string + table) \<Rightarrow> string \<Rightarrow> string
     \<Rightarrow> error + table" where
  "load_file read_csv read_excel filename fl =
     (if endswith filename ''csv'' \<or> endswith filename ''txt''
      then (case try_delimiters (read_csv fl) [CHR '','', CHR '';'', CHR 0x09] of
              None \<Rightarrow> Inl (Stopped ''Could not read CSV file. Please check delimiter or file structure.'')
            | Some df \<Rightarrow> Inr df)
      else (case read_excel fl of
              Inl e \<Rightarrow> Inl (Stopped (''Error reading file: '' @ e))
            | Inr df \<Rightarrow> Inr df))"

subsection \<open>Instances of the library parsers\<close>

text \<open>
  Modelled from the spec: \<^verbatim>\<open>pd.to_numeric\<close> is pandas' and is not part of the script; the
  spec says "parse as a number". \<open>to_numeric_dec\<close> is the parser on plain decimal literals:
  an optional sign, digits, and an optional fraction after a point, with at least one digit.
  It rejects every other text. (pandas also reads exponents and the words inf and nan,
  which no statement below uses.)
\<close>

definition is_digit :: "char \<Rightarrow> bool" where
  "is_digit c = (48 \<le> (of_char c :: nat) \<and> (of_char c :: nat) \<le> 57)"

definition nat_of_digits :: "string \<Rightarrow> nat" where
  "nat_of_digits ds = fold (\<lambda>c n. 10 * n + ((of_char c :: nat) - 48)) ds 0"

definition unsigned_dec :: "string \<Rightarrow> real option" where
  "unsigned_dec s =
     (let ip = takeWhile is_digit s; rest = dropWhile is_digit s
      in case rest of
           [] \<Rightarrow> if ip = [] then None else Some (real (nat_of_digits ip))
         | c # fp \<Rightarrow>
             if c = CHR ''.'' \<and> list_all is_digit fp \<and> (ip \<noteq> [] \<or> fp \<noteq> [])
             then Some (real (nat_of_digits (ip @ fp)) / 10 ^ length fp)
             else None)"

definition to_numeric_dec :: "string \<Rightarrow> real option" where
  "to_numeric_dec s =
     (case s of
        [] \<Rightarrow> None
      | c # r \<Rightarrow>
          if c = CHR ''-'' then map_option uminus (unsigned_dec r)
          else if c = CHR ''+'' then unsigned_dec r
          else unsigned_dec s)"

text \<open>
  Modelled from the spec: how \<^verbatim>\<open>.astype(str)\<close> prints a cell that is not a string is
  pandas' and Python's and is not part of the script; the spec speaks of cells that are
  "already pure numbers". \<open>py_str\<close> prints a number in positional decimal notation: a minus
  sign for a negative number, the digits of the whole part, and after a point the digits of
  the fraction without trailing zeros, at most 17 of them. A whole number prints without a
  fraction (as in an integer column) or, with \<open>pt\<close>, with the fraction .0 (as in a float
  column). A missing value prints as nan, a date as YYYY-MM-DD. (Python switches to
  exponent notation for very large and very small floats, which no statement below uses.)
\<close>

fun frac_digits :: "nat \<Rightarrow> real \<Rightarrow> string" where
  "frac_digits 0 f = []"
| "frac_digits (Suc k) f =
     (if f = 0 then []
      else digit_chr (nat \<lfloor>10 * f\<rfloor>) # frac_digits k (10 * f - of_int \<lfloor>10 * f\<rfloor>))"

definition unsigned_str :: "bool \<Rightarrow> real \<Rightarrow> string" where
  "unsigned_str pt x =
     (let ip = str_of_nat (nat \<lfloor>x\<rfloor>); fd = frac_digits 17 (x - of_int \<lfloor>x\<rfloor>)
      in if fd = [] then (if pt then ip @ ''.0'' else ip) else ip @ ''.'' @ fd)"

definition num_str :: "bool \<Rightarrow> real \<Rightarrow> string" where
  "num_str pt x = (if x < 0 then CHR ''-'' # unsigned_str pt (- x) else unsigned_str pt x)"

definition py_str :: "bool \<Rightarrow> cell \<Rightarrow> string" where
  "py_str pt v =
     (case v of
        Str s \<Rightarrow> s
      | Num x \<Rightarrow> num_str pt x
      | Date t \<Rightarrow> str_of_nat (year t) @ ''-'' @ zfill 2 (str_of_nat (month t)) @ ''-'' @
                  zfill 2 (str_of_nat (day t))
      | Null \<Rightarrow> ''nan'')"

text \<open>A number with at most 17 decimal places.\<close>

definition decimal17 :: "real \<Rightarrow> bool" where
  "decimal17 x = (of_int \<lfloor>x * 10 ^ 17\<rfloor> = x * 10 ^ 17)"

text \<open>The characters of a printed number.\<close>

definition plain_chr :: "char \<Rightarrow> bool" where
  "plain_chr c = (is_digit c \<or> c = CHR ''.'' \<or> c = CHR ''-'')"

text \<open>
  Modelled from the spec: \<^verbatim>\<open>pd.to_datetime\<close> is pandas' and is not part of the script; the
  spec says "parse each cell as a calendar date". \<open>to_datetime_iso\<close> is the parser on
  texts of the form YYYY-MM-DD: it accepts the days of the Gregorian calendar and rejects
  every other cell. (pandas reads many more formats, which no statement below uses.)
\<close>

definition leap_year :: "nat \<Rightarrow> bool" where
  "leap_year y = (y mod 4 = 0 \<and> (y mod 100 \<noteq> 0 \<or> y mod 400 = 0))"

definition days_in_month :: "nat \<Rightarrow> nat \<Rightarrow> nat" where
  "days_in_month y m =
     (if m = 2 then (if leap_year y then 29 else 28)
      else if m \<in> {4, 6, 9, 11} then 30 else 31)"

definition to_datetime_iso :: "cell \<Rightarrow> timestamp option" where
  "to_datetime_iso v =
     (case v of
        Str s \<Rightarrow>
          (let ys = take 4 s; ms = take 2 (drop 5 s); ds = take 2 (drop 8 s);
               y = nat_of_digits ys; m = nat_of_digits ms; d = nat_of_digits ds
           in if length s = 10 \<and> s ! 4 = CHR ''-'' \<and> s ! 7 = CHR ''-''
                 \<and> list_all is_digit (ys @ ms @ ds)
                 \<and> 1 \<le> m \<and> m \<le> 12 \<and> 1 \<le> d \<and> d \<le> days_in_month y m
              then Some (Timestamp y m d 0) else None)
      | _ \<Rightarrow> None)"

subsection \<open>The numeric cleaner as the specification words it\<close>

text \<open>
  The specification describes the edit of a numeric cell as: strip the thousands-separator
  characters and a leading currency symbol, trim whitespace. \<open>spec_clean_text\<close> follows
  these words, for comparison with \<open>clean_text\<close>, which follows the script.
\<close>

definition strip_leading_currency :: "string \<Rightarrow> string" where
  "strip_leading_currency s =
     (case s of [] \<Rightarrow> [] | c # r \<Rightarrow> if c = CHR ''$'' then r else s)"

definition spec_clean_text :: "string \<Rightarrow> string" where
  "spec_clean_text s = strip (strip_leading_currency (delete_chr CHR '','' s))"

definition spec_clean_numeric_cell ::
  "(cell \<Rightarrow> string) \<Rightarrow> (string \<Rightarrow> real option) \<Rightarrow> cell \<Rightarrow> cell" where
  "spec_clean_numeric_cell repr to_numeric v =
     fillna0 (coerce_numeric to_numeric (spec_clean_text (astype_str repr v)))"

subsection \<open>Example data\<close>

definition demo_binding :: binding where
  "demo_binding =
     \<lparr>date_col = Some ''Order Date'', sales_col = Some ''Sales'', profit_col = None,
      product_col = None, region_col = Some ''Region'', state_col = None,
      city_col = Some ''City'', retailer_col = None, quantity_col = None\<rparr>"

definition demo_table :: table where
  "demo_table =
     \<lparr>columns = [''Order Date'', ''Region'', ''City'', ''Sales''],
      rows =
        [[(''Order Date'', Date (Timestamp 2023 3 1 0)), (''Region'', Str ''East''),
          (''City'', Str ''Boston''), (''Sales'', Num 5)],
         [(''Order Date'', Date (Timestamp 2022 12 24 0)), (''Region'', Str ''West''),
          (''City'', Str ''Reno''), (''Sales'', Num 7)],
         [(''Order Date'', Date (Timestamp 2023 3 9 0)), (''Region'', Str ''East''),
          (''City'', Str ''Albany''), (''Sales'', Num 1)]]\<rparr>"

subsection \<open>The inclusive range test\<close>

text \<open>What \<^verbatim>\<open>(column >= date1) & (column <= date2)\<close> computes for one cell of a datetime
  column: a date is tested against both ends, a missing date fails.\<close>

fun in_range :: "timestamp \<Rightarrow> timestamp \<Rightarrow> cell \<Rightarrow> bool" where
  "in_range date1 date2 (Date t) = (ts_le date1 t \<and> ts_le t date2)"
| "in_range date1 date2 v = False"

definition typed_table :: table where
  "typed_table =
     \<lparr>columns = [''Sales'', ''Units''],
      rows =
        [[(''Sales'', Num 5), (''Units'', Num 2)],
         [(''Sales'', Num 1234.5), (''Units'', Num 10)],
         [(''Sales'', Num (- 7.25)), (''Units'', Num 1)]]\<rparr>"

definition raw_table :: table where
  "raw_table =
     \<lparr>columns = [''Order Date'', ''Sales''],
      rows =
        [[(''Order Date'', Str ''2023-03-01''), (''Sales'', Str ''$1,234.50'')],
         [(''Order Date'', Str ''2023-13-40''), (''Sales'', Str ''abc'')],
         [(''Order Date'', Str ''2022-12-24''), (''Sales'', Str [])]]\<rparr>"

text \<open>A text that the edit of the numeric cleaner leaves as it is: no comma, no dollar
  sign, and no whitespace at either end.\<close>

definition untouched :: "string \<Rightarrow> bool" where
  "untouched s =
     (CHR '','' \<notin> set s \<and> CHR ''$'' \<notin> set s \<and>
      (s = [] \<or> (\<not> is_space (hd s) \<and> \<not> is_space (last s))))"

text \<open>One decoding attempt is rejected when it raises or yields at most one column.\<close>

definition rejected :: "string + table \<Rightarrow> bool" where
  "rejected attempt =
     (case attempt of Inl e \<Rightarrow> True | Inr df \<Rightarrow> length (columns df) \<le> 1)"

text \<open>A decoder for the examples: it splits the first line at the delimiter and reads no
  rows.\<close>

fun split_at :: "char \<Rightarrow> string \<Rightarrow> string list" where
  "split_at d [] = [[]]"
| "split_at d (c # s) =
     (case split_at d s of
        [] \<Rightarrow> [[c]]
      | w # ws \<Rightarrow> if c = d then [] # w # ws else (c # w) # ws)"

definition header_only_csv :: "string \<Rightarrow> char \<Rightarrow> string + table" where
  "header_only_csv fl d = Inr \<lparr>columns = split_at d fl, rows = []\<rparr>"

subsection \<open>The whole run\<close>

text \<open>
  The stages in the order of the script. What the user picks in the widgets (the three
  selections and the two dates) is an input; the result is the time series aggregate (when
  it is drawn) and the download, or the exception that ended the run. The total figures and
  the other charts read \<^verbatim>\<open>filtered_df\<close> without changing it and are left out.
\<close>

definition dashboard ::
  "(string \<Rightarrow> char \<Rightarrow> string + table) \<Rightarrow> (string \<Rightarrow> string + table) \<Rightarrow>
   (string \<Rightarrow> string \<Rightarrow> real) \<Rightarrow> (cell \<Rightarrow> timestamp option) \<Rightarrow> (cell \<Rightarrow> string) \<Rightarrow>
   (string \<Rightarrow> real option) \<Rightarrow> (table \<Rightarrow> string) \<Rightarrow>
   string \<Rightarrow> string \<Rightarrow> cell list \<Rightarrow> cell list \<Rightarrow> cell list \<Rightarrow> timestamp \<Rightarrow> timestamp \<Rightarrow>
   error + table option \<times> download" where
  "dashboard read_csv read_excel fz to_datetime repr to_numeric to_csv
       filename fl region state city date1 date2 =
     then_do (load_file read_csv read_excel filename fl) (\<lambda>df.
     then_do (detect_columns fz df) (\<lambda>b.
     then_do (clean to_datetime repr to_numeric df b) (\<lambda>df.
     then_do (filtered_data df b region state city date1 date2) (\<lambda>filtered_df.
       visualise_and_export to_csv filtered_df b))))"

subsection \<open>Periods\<close>

text \<open>Months in chronological order, and the month of a row's date.\<close>

definition period_less :: "nat \<times> nat \<Rightarrow> nat \<times> nat \<Rightarrow> bool" where
  "period_less p q = (fst p < fst q \<or> (fst p = fst q \<and> snd p < snd q))"

definition row_period :: "string \<Rightarrow> row \<Rightarrow> (nat \<times> nat) option" where
  "row_period dc r = (case value_at r dc of Date t \<Rightarrow> Some (period_of t) | _ \<Rightarrow> None)"

text \<open>The decimal digits of a number, to a fixed width.\<close>

fun dec :: "nat \<Rightarrow> nat \<Rightarrow> string" where
  "dec 0 n = []"
| "dec (Suc k) n = dec k (n div 10) @ [digit_chr (n mod 10)]"

text \<open>A filtered table of three orders with a date and a sales column, and the binding
  of the two roles.\<close>

definition orders_table :: table where
  "orders_table =
     \<lparr>columns = [''Order Date'', ''Sales''],
      rows =
        [[(''Order Date'', Date (Timestamp 2023 3 5 0)), (''Sales'', Num 5)],
         [(''Order Date'', Date (Timestamp 2022 12 24 0)), (''Sales'', Num 7)],
         [(''Order Date'', Date (Timestamp 2023 3 9 0)), (''Sales'', Num 4)]]\<rparr>"

definition orders_binding :: binding where
  "orders_binding =
     \<lparr>date_col = Some ''Order Date'', sales_col = Some ''Sales'', profit_col = None,
      product_col = None, region_col = None, state_col = None, city_col = None,
      retailer_col = None, quantity_col = None\<rparr>"

text \<open>The months pandas can print: Timestamps have four-digit years.\<close>

definition valid_period :: "nat \<times> nat \<Rightarrow> bool" where
  "valid_period p = (1000 \<le> fst p \<and> fst p \<le> 9999 \<and> 1 \<le> snd p \<and> snd p \<le> 12)"

section \<open>Verification\<close>

subsection \<open>The column resolver\<close>

lemma py_max_Max: "xs \<noteq> [] \<Longrightarrow> py_max xs = Inr (Max (set xs))"
proof -
  assume ne: "xs \<noteq> []"
  have step: "(\<lambda>item m::real. if item > m then item else m) = max"
    by (auto simp: fun_eq_iff max_def)
  from ne obtain x rest where xs: "xs = x # rest"
    by (cases xs) auto
  have "fold max rest x = Max (set (x # rest))"
    by (simp only: Max.set_eq_fold)
  then show ?thesis
    unfolding py_max_def xs step by simp
qed

lemma build_matches_fold:
  "possible_names \<noteq> [] \<Longrightarrow>
   build_matches fz possible_names cols matches =
     Inr (fold (\<lambda>col. AList.update col (header_score fz possible_names col)) cols matches)"
proof (induction cols arbitrary: matches)
  case Nil
  show ?case by simp
next
  case (Cons col rest)
  have "py_max (map (\<lambda>key. fz (lower col) (lower key)) possible_names) =
          Inr (header_score fz possible_names col)"
    using Cons.prems by (simp add: py_max_Max header_score_def)
  then show ?case
    using Cons by simp
qed

lemma build_matches_no_names:
  "build_matches fz [] (col # rest) matches = Inl ValueError"
  by (simp add: py_max_def)

lemma set_update_subset: "set (AList.update k v al) \<subseteq> insert (k, v) (set al)"
  by (induction al) auto

lemma update_keys: "fst ` set (AList.update k v al) = insert k (fst ` set al)"
  by (simp add: AList.dom_update)

lemma fold_update_entries:
  "(k, v) \<in> set (fold (\<lambda>col. AList.update col (f col)) cols matches) \<Longrightarrow>
     (k, v) \<in> set matches \<or> (k \<in> set cols \<and> v = f k)"
proof (induction cols arbitrary: matches)
  case Nil
  then show ?case by simp
next
  case (Cons col rest)
  from Cons.prems have
    "(k, v) \<in> set (fold (\<lambda>col. AList.update col (f col)) rest (AList.update col (f col) matches))"
    by simp
  from Cons.IH [OF this] show ?case
    using set_update_subset [of col "f col" matches] by auto
qed

lemma fold_update_keys:
  "fst ` set (fold (\<lambda>col. AList.update col (f col)) cols matches) =
     set cols \<union> fst ` set matches"
  by (induction cols arbitrary: matches) (auto simp: update_keys)

lemma max_item_mem: "max_item best rest \<in> set (best # rest)"
  by (induction rest arbitrary: best) auto

lemma max_item_ge_best: "snd best \<le> snd (max_item best rest)"
proof (induction rest arbitrary: best)
  case Nil
  show ?case by simp
next
  case (Cons a rest)
  have "snd best \<le> snd (if snd a > snd best then a else best)"
    by simp
  also have "\<dots> \<le> snd (max_item (if snd a > snd best then a else best) rest)"
    by (rule Cons.IH)
  finally show ?case by simp
qed

lemma max_item_ge: "kv \<in> set (best # rest) \<Longrightarrow> snd kv \<le> snd (max_item best rest)"
proof (induction rest arbitrary: best)
  case Nil
  then show ?case by simp
next
  case (Cons a rest)
  let ?b = "if snd a > snd best then a else best"
  show ?case
  proof (cases "kv \<in> set rest")
    case True
    then show ?thesis using Cons.IH [of ?b] by simp
  next
    case False
    with Cons.prems have "kv = best \<or> kv = a" by auto
    then have "snd kv \<le> snd ?b" by auto
    also have "\<dots> \<le> snd (max_item ?b rest)" by (rule max_item_ge_best)
    finally show ?thesis by simp
  qed
qed

lemma find_best_column_nonempty:
  assumes "column_list \<noteq> []" and "possible_names \<noteq> []"
  shows "\<exists>h \<in> set column_list.
           (\<forall>c \<in> set column_list.
              header_score fz possible_names c \<le> header_score fz possible_names h) \<and>
           find_best_column fz possible_names column_list =
             Inr (if header_score fz possible_names h > 60 then Some h else None)"
proof -
  define f where "f = header_score fz possible_names"
  define matches where "matches = fold (\<lambda>col. AList.update col (f col)) column_list []"
  have bm: "build_matches fz possible_names column_list [] = Inr matches"
    using assms(2) by (simp add: build_matches_fold matches_def f_def)
  have keys: "fst ` set matches = set column_list"
    by (simp add: matches_def fold_update_keys)
  have entries: "v = f k" if "(k, v) \<in> set matches" for k v
    using fold_update_entries [of k v f column_list "[]"] that by (simp add: matches_def)
  from keys assms(1) obtain kv rest where m: "matches = kv # rest"
    by (cases matches) auto
  define best where "best = max_item kv rest"
  have best_in: "best \<in> set matches"
    using max_item_mem [of kv rest] by (simp add: best_def m)
  then have h_in: "fst best \<in> set column_list"
    using keys by force
  have best_val: "snd best = f (fst best)"
    using entries [of "fst best" "snd best"] best_in by simp
  have ub: "f c \<le> f (fst best)" if "c \<in> set column_list" for c
  proof -
    from that keys obtain v where cv: "(c, v) \<in> set matches" by force
    then have "v = f c" by (rule entries)
    moreover have "snd (c, v) \<le> snd best"
      unfolding best_def using cv max_item_ge [of "(c, v)" kv rest] by (simp add: m)
    ultimately show ?thesis using best_val by simp
  qed
  have res: "find_best_column fz possible_names column_list =
      Inr (if f (fst best) > 60 then Some (fst best) else None)"
    using bm best_val by (simp add: find_best_column_def m best_def Let_def)
  show ?thesis
    using h_in ub res unfolding f_def by blast
qed

lemma find_best_column_bound:
  assumes "find_best_column fz possible_names column_list = Inr (Some h)"
  shows "h \<in> set column_list \<and> header_score fz possible_names h > 60"
proof -
  have ne: "column_list \<noteq> []"
    using assms by (auto simp: find_best_column_def)
  have ne': "possible_names \<noteq> []"
  proof
    assume "possible_names = []"
    then have "build_matches fz possible_names column_list [] = Inl ValueError"
      using ne by (cases column_list) (simp_all add: py_max_def)
    then show False using assms by (simp add: find_best_column_def)
  qed
  from find_best_column_nonempty [OF ne ne', of fz] assms show ?thesis
    by (auto split: if_splits)
qed

lemma widget_region: "find_best_column ratio [''Region''] [''Widget''] = Inr None"
  by code_simp

text \<open>
  C1. The claim: with an empty header list the resolver returns "no binding" for the role
  instead of failing. The script does not: its loop leaves \<^verbatim>\<open>matches\<close> empty and
  \<^verbatim>\<open>max(matches, key=matches.get)\<close> raises \<^verbatim>\<open>ValueError\<close>, whatever the candidate names are.
\<close>

theorem find_best_column_no_headers:
  "find_best_column fz possible_names [] = Inl ValueError"
  by (simp add: find_best_column_def)

lemma lower_examples:
  "lower ''ABCDEFGHIJKLMNOPQRSTUVWXYZ'' = ''abcdefghijklmnopqrstuvwxyz''"
  "lower ''order date_2023 $,.'' = ''order date_2023 $,.''"
  "lower ''REGION'' = ''region''"
  "lower ''Region'' = ''region''"
  by code_simp+

lemma upper_case_headers:
  "find_best_column ratio [''Region''] [''REGION''] = Inr (Some ''REGION'')"
  "find_best_column ratio [''State''] [''CITY'', ''STATE''] = Inr (Some ''STATE'')"
  by code_simp+

lemma region_score: "header_score ratio [''Region''] ''REGION'' = 100"
  by (simp add: header_score_def lower_examples ratio_def)

text \<open>
  C2. The score of a header is the greatest similarity of the lower-cased header with a
  lower-cased candidate name. For a non-empty header list and a non-empty list of candidate
  names the resolver finds a header \<open>h\<close> of maximal score among all headers, and binds it
  exactly when that maximal score is strictly greater than 60 (otherwise the role is
  unbound). Whatever the arguments, a header that is bound is one of the headers and scores
  more than 60, so a header that scores at most 60 against every candidate is never bound.
  With rapidfuzz's score, the header Widget is not bound to the candidate Region (its score
  is 50/3), while the header REGION, which differs from the candidate in case only, scores
  100 and is bound.
\<close>

theorem find_best_column_threshold:
  "(column_list \<noteq> [] \<and> possible_names \<noteq> [] \<longrightarrow>
      (\<exists>h \<in> set column_list.
         (\<forall>c \<in> set column_list.
            header_score fz possible_names c \<le> header_score fz possible_names h) \<and>
         find_best_column fz possible_names column_list =
           Inr (if header_score fz possible_names h > 60 then Some h else None))) \<and>
   (\<forall>h. find_best_column fz possible_names column_list = Inr (Some h) \<longrightarrow>
      h \<in> set column_list \<and> header_score fz possible_names h > 60) \<and>
   find_best_column ratio [''Region''] [''Widget''] = Inr None \<and>
   header_score fz possible_names col =
     Max ((\<lambda>key. fz (lower col) (lower key)) ` set possible_names) \<and>
   lower ''ABCDEFGHIJKLMNOPQRSTUVWXYZ'' = ''abcdefghijklmnopqrstuvwxyz'' \<and>
   lower ''order date_2023 $,.'' = ''order date_2023 $,.'' \<and>
   header_score ratio [''Region''] ''Widget'' = 50 / 3 \<and>
   header_score ratio [''Region''] ''REGION'' = 100 \<and>
   find_best_column ratio [''Region''] [''REGION''] = Inr (Some ''REGION'') \<and>
   find_best_column ratio [''State''] [''CITY'', ''STATE''] = Inr (Some ''STATE'')"
proof -
  have w: "header_score ratio [''Region''] ''Widget'' = 50 / 3"
  proof -
    have "lower ''Widget'' = ''widget''" by code_simp
    then show ?thesis
      by (simp add: header_score_def lower_examples ratio_def)
  qed
  have d: "header_score fz possible_names col =
     Max ((\<lambda>key. fz (lower col) (lower key)) ` set possible_names)"
    by (simp add: header_score_def)
  from find_best_column_nonempty [of column_list possible_names fz]
    find_best_column_bound [of fz possible_names column_list] widget_region
    d lower_examples(1,2) w region_score upper_case_headers
  show ?thesis by blast
qed

theorem find_best_column_threshold_witness:
  "[''Widget'', ''SALES''] \<noteq> [] \<and> [''TotalSales'', ''Sales''] \<noteq> [] \<and>
   find_best_column ratio [''TotalSales'', ''Sales''] [''Widget'', ''SALES''] = Inr (Some ''SALES'') \<and>
   ''SALES'' \<in> set [''Widget'', ''SALES''] \<and>
   header_score ratio [''TotalSales'', ''Sales''] ''SALES'' > 60"
proof -
  have ev: "find_best_column ratio [''TotalSales'', ''Sales''] [''Widget'', ''SALES'']
              = Inr (Some ''SALES'')"
    by code_simp
  from find_best_column_threshold
         [of "[''Widget'', ''SALES'']" "[''TotalSales'', ''Sales'']" ratio] ev
  have "''SALES'' \<in> set [''Widget'', ''SALES''] \<and>
        header_score ratio [''TotalSales'', ''Sales''] ''SALES'' > 60"
    by blast
  with ev show ?thesis by simp
qed

subsection \<open>The dimension filter\<close>

lemma then_do_Inr [simp]: "then_do (Inr x) f = f x"
  by (simp add: then_do_def)

lemma then_do_Inl [simp]: "then_do (Inl e) f = Inl e"
  by (simp add: then_do_def)

lemma zip_map_filter: "map fst (filter snd (zip xs (map p xs))) = filter p xs"
  by (induction xs) auto

lemma select_rows_isin:
  "select_rows df (isin (map (\<lambda>r. value_at r c) (rows df)) chosen) =
     df\<lparr>rows := filter (\<lambda>r. value_at r c \<in> set chosen) (rows df)\<rparr>"
proof -
  have "isin (map (\<lambda>r. value_at r c) (rows df)) chosen =
          map (\<lambda>r. value_at r c \<in> set chosen) (rows df)"
    by (simp add: isin_def comp_def)
  then show ?thesis
    by (simp add: select_rows_def zip_map_filter)
qed

lemma filter_dim_rows:
  assumes "\<forall>c. chosen \<noteq> [] \<and> col = Some c \<and> c \<noteq> [] \<longrightarrow> c \<in> set (columns df)"
  shows "filter_dim df chosen col =
           Inr (df\<lparr>rows := filter (\<lambda>r. \<forall>c. chosen \<noteq> [] \<and> col = Some c \<and> c \<noteq> []
                                      \<longrightarrow> value_at r c \<in> set chosen) (rows df)\<rparr>)"
proof (cases col)
  case None
  then show ?thesis by (simp add: filter_dim_def)
next
  case (Some c)
  show ?thesis
  proof (cases "chosen \<noteq> [] \<and> c \<noteq> []")
    case True
    with assms Some have "getcol df c = Inr (map (\<lambda>r. value_at r c) (rows df))"
      by (simp add: getcol_def)
    with True Some show ?thesis
      by (simp add: filter_dim_def select_rows_isin)
  next
    case False
    with Some show ?thesis by (auto simp: filter_dim_def)
  qed
qed

text \<open>
  C3. Let every dimension column that is bound (to a non-empty header) and has a non-empty
  selection be a header of the table. Then the dimension filter returns the table with the
  same headers and exactly those rows, in their order, that satisfy for each of the three
  dimensions: if the selection is non-empty and the column is bound, the row's value in that
  column is a member of the selection. A dimension with an empty selection or an unbound
  column excludes no row.
\<close>

theorem dimension_filter_rows:
  assumes "\<forall>c. region \<noteq> [] \<and> region_col b = Some c \<and> c \<noteq> [] \<longrightarrow> c \<in> set (columns df)"
    and "\<forall>c. state \<noteq> [] \<and> state_col b = Some c \<and> c \<noteq> [] \<longrightarrow> c \<in> set (columns df)"
    and "\<forall>c. city \<noteq> [] \<and> city_col b = Some c \<and> c \<noteq> [] \<longrightarrow> c \<in> set (columns df)"
  shows "dimension_filter df b region state city =
     Inr (df\<lparr>rows := filter (\<lambda>r.
            (\<forall>c. region \<noteq> [] \<and> region_col b = Some c \<and> c \<noteq> [] \<longrightarrow> value_at r c \<in> set region) \<and>
            (\<forall>c. state \<noteq> [] \<and> state_col b = Some c \<and> c \<noteq> [] \<longrightarrow> value_at r c \<in> set state) \<and>
            (\<forall>c. city \<noteq> [] \<and> city_col b = Some c \<and> c \<noteq> [] \<longrightarrow> value_at r c \<in> set city))
          (rows df)\<rparr>)"
proof -
  let ?P = "\<lambda>chosen col r. \<forall>c. chosen \<noteq> [] \<and> col = Some c \<and> c \<noteq> [] \<longrightarrow> value_at r c \<in> set chosen"
  let ?df1 = "df\<lparr>rows := filter (?P region (region_col b)) (rows df)\<rparr>"
  let ?df2 = "?df1\<lparr>rows := filter (?P state (state_col b)) (rows ?df1)\<rparr>"
  have 1: "filter_dim df region (region_col b) = Inr ?df1"
    using assms(1) by (rule filter_dim_rows)
  have 2: "filter_dim ?df1 state (state_col b) = Inr ?df2"
    using assms(2) by (intro filter_dim_rows) simp
  have 3: "filter_dim ?df2 city (city_col b) =
             Inr (?df2\<lparr>rows := filter (?P city (city_col b)) (rows ?df2)\<rparr>)"
    using assms(3) by (intro filter_dim_rows) simp
  have "dimension_filter df b region state city =
          Inr (?df2\<lparr>rows := filter (?P city (city_col b)) (rows ?df2)\<rparr>)"
    unfolding dimension_filter_def 1 2 3 then_do_Inr ..
  also have "\<dots> = Inr (df\<lparr>rows := filter (\<lambda>r. ?P region (region_col b) r \<and>
        ?P state (state_col b) r \<and> ?P city (city_col b) r) (rows df)\<rparr>)"
    by (simp add: conj_commute conj_left_commute cong: conj_cong)
  finally show ?thesis .
qed

theorem dimension_filter_rows_witness:
  "dimension_filter demo_table demo_binding [Str ''East''] [Str ''NY''] [] =
     Inr \<lparr>columns = [''Order Date'', ''Region'', ''City'', ''Sales''],
          rows =
            [[(''Order Date'', Date (Timestamp 2023 3 1 0)), (''Region'', Str ''East''),
              (''City'', Str ''Boston''), (''Sales'', Num 5)],
             [(''Order Date'', Date (Timestamp 2023 3 9 0)), (''Region'', Str ''East''),
              (''City'', Str ''Albany''), (''Sales'', Num 1)]]\<rparr>"
  using dimension_filter_rows [of "[Str ''East'']" demo_binding demo_table "[Str ''NY'']" "[]"]
  by (simp add: demo_binding_def demo_table_def value_at_def)

subsection \<open>Reading and assigning columns\<close>

lemma value_at_update_same: "value_at (AList.update c v r) c = v"
  by (simp add: value_at_def AList.update_conv')

lemma value_at_update_other: "c' \<noteq> c \<Longrightarrow> value_at (AList.update c v r) c' = value_at r c'"
  by (simp add: value_at_def AList.update_conv')

lemma columns_setcol: "set (columns (setcol df c vals)) = insert c (set (columns df))"
  by (auto simp: setcol_def)

lemma length_rows_setcol:
  "length vals = length (rows df) \<Longrightarrow> length (rows (setcol df c vals)) = length (rows df)"
  by (simp add: setcol_def)

lemma map_zip_snd: "length xs = length ys \<Longrightarrow> map (\<lambda>(x, y). f y) (zip xs ys) = map f ys"
  by (induction xs ys rule: list_induct2) auto

lemma map_zip_fst: "length xs = length ys \<Longrightarrow> map (\<lambda>(x, y). f x) (zip xs ys) = map f xs"
  by (induction xs ys rule: list_induct2) auto

lemma getcol_setcol_same:
  assumes "length vals = length (rows df)"
  shows "getcol (setcol df c vals) c = Inr vals"
proof -
  have "map (\<lambda>r. value_at r c) (rows (setcol df c vals)) =
          map (\<lambda>(r, v). v) (zip (rows df) vals)"
    by (simp add: setcol_def value_at_update_same split_def)
  also have "\<dots> = vals"
    using assms map_zip_snd [of "rows df" vals "\<lambda>v. v"] by simp
  finally show ?thesis
    by (simp add: getcol_def columns_setcol)
qed

lemma getcol_setcol_other:
  assumes "length vals = length (rows df)" and "c' \<noteq> c"
  shows "getcol (setcol df c vals) c' = getcol df c'"
proof -
  have "map (\<lambda>r. value_at r c') (rows (setcol df c vals)) =
          map (\<lambda>(r, v). value_at r c') (zip (rows df) vals)"
    using assms(2) by (simp add: setcol_def value_at_update_other split_def)
  also have "\<dots> = map (\<lambda>r. value_at r c') (rows df)"
    using assms(1) map_zip_fst [of "rows df" vals "\<lambda>r. value_at r c'"] by simp
  finally show ?thesis
    using assms(2) by (simp add: getcol_def columns_setcol)
qed

lemma getcol_values: "getcol df c = Inr vals \<Longrightarrow> vals = map (\<lambda>r. value_at r c) (rows df)"
  by (auto simp: getcol_def split: if_splits)

lemma getcol_length: "getcol df c = Inr vals \<Longrightarrow> length vals = length (rows df)"
  by (auto simp: getcol_def split: if_splits)

lemma getcol_header:
  "c \<in> set (columns df) \<Longrightarrow> getcol df c = Inr (map (\<lambda>r. value_at r c) (rows df))"
  by (simp add: getcol_def)

subsection \<open>Dates: cleaning and the range filter\<close>

lemma clean_dates_column:
  assumes "c \<noteq> []" and "c \<in> set (columns df)"
  shows "clean_dates to_datetime df (Some c) =
           Inr (setcol df c (map (\<lambda>r. coerce_date to_datetime (value_at r c)) (rows df))) \<and>
         getcol (setcol df c (map (\<lambda>r. coerce_date to_datetime (value_at r c)) (rows df))) c =
           Inr (map (\<lambda>r. coerce_date to_datetime (value_at r c)) (rows df))"
proof -
  have g: "getcol df c = Inr (map (\<lambda>r. value_at r c) (rows df))"
    using assms(2) by (simp add: getcol_def)
  have "clean_dates to_datetime df (Some c) =
           Inr (setcol df c (map (\<lambda>r. coerce_date to_datetime (value_at r c)) (rows df)))"
    using assms(1) by (simp add: clean_dates_def g comp_def)
  moreover have "getcol (setcol df c (map (\<lambda>r. coerce_date to_datetime (value_at r c)) (rows df))) c =
           Inr (map (\<lambda>r. coerce_date to_datetime (value_at r c)) (rows df))"
    by (rule getcol_setcol_same) simp
  ultimately show ?thesis by simp
qed

lemma coerce_date_cases:
  "coerce_date to_datetime v = Null \<or> (\<exists>t. coerce_date to_datetime v = Date t)"
  by (simp add: coerce_date_def split: option.splits)

lemma cleaned_dates_typed:
  assumes "c \<noteq> []" and "c \<in> set (columns df)"
    and "clean_dates to_datetime df (Some c) = Inr df1"
  shows "c \<in> set (columns df1) \<and>
         (\<forall>r \<in> set (rows df1). value_at r c = Null \<or> (\<exists>t. value_at r c = Date t))"
proof -
  let ?vals = "map (\<lambda>r. coerce_date to_datetime (value_at r c)) (rows df)"
  from clean_dates_column [OF assms(1,2), of to_datetime] assms(3)
  have df1: "df1 = setcol df c ?vals" and g: "getcol df1 c = Inr ?vals"
    by simp_all
  have "map (\<lambda>r. value_at r c) (rows df1) = ?vals"
    using getcol_values [OF g] by simp
  then have "\<forall>v \<in> set (map (\<lambda>r. value_at r c) (rows df1)). v = Null \<or> (\<exists>t. v = Date t)"
    using coerce_date_cases [of to_datetime] by auto
  then show ?thesis
    using df1 by (auto simp: columns_setcol)
qed

lemma compare_col_Inr:
  "compare_col p vals = Inr bs \<Longrightarrow>
     bs = map (\<lambda>v. case v of Date t \<Rightarrow> p t | _ \<Rightarrow> False) vals"
proof (induction p vals arbitrary: bs rule: compare_col.induct)
  case (1 p)
  then show ?case by simp
next
  case (2 p t vs)
  then show ?case by (cases "compare_col p vs") auto
next
  case (3 p vs)
  then show ?case by (cases "compare_col p vs") auto
qed simp_all

lemma compare_col_total:
  "\<forall>v \<in> set vals. v = Null \<or> (\<exists>t. v = Date t) \<Longrightarrow>
     compare_col p vals = Inr (map (\<lambda>v. case v of Date t \<Rightarrow> p t | _ \<Rightarrow> False) vals)"
  by (induction vals) auto

lemma date_filter_Inr:
  assumes "c \<noteq> []" and "date_filter df (Some c) date1 date2 = Inr df'"
  shows "df' = df\<lparr>rows := filter (\<lambda>r. in_range date1 date2 (value_at r c)) (rows df)\<rparr>"
proof -
  from assms obtain vals ge le where
    g: "getcol df c = Inr vals" and
    ge: "compare_col (\<lambda>t. ts_le date1 t) vals = Inr ge" and
    le: "compare_col (\<lambda>t. ts_le t date2) vals = Inr le" and
    res: "df' = select_rows df (map (\<lambda>(a, b). a \<and> b) (zip ge le))"
    by (auto simp: date_filter_def then_do_def split: sum.splits)
  have vals: "vals = map (\<lambda>r. value_at r c) (rows df)"
    using g by (rule getcol_values)
  have "map (\<lambda>(a, b). a \<and> b) (zip ge le) = map (in_range date1 date2) vals"
    unfolding compare_col_Inr [OF ge] compare_col_Inr [OF le]
    by (induction vals) (auto split: cell.splits)
  then show ?thesis
    unfolding res by (simp add: vals select_rows_def zip_map_filter comp_def)
qed

lemma date_filter_total:
  assumes "c \<noteq> []" and "c \<in> set (columns df)"
    and "\<forall>r \<in> set (rows df). value_at r c = Null \<or> (\<exists>t. value_at r c = Date t)"
  shows "date_filter df (Some c) date1 date2 =
           Inr (df\<lparr>rows := filter (\<lambda>r. in_range date1 date2 (value_at r c)) (rows df)\<rparr>)"
proof -
  let ?vals = "map (\<lambda>r. value_at r c) (rows df)"
  have g: "getcol df c = Inr ?vals"
    using assms(2) by (simp add: getcol_def)
  have dn: "\<forall>v \<in> set ?vals. v = Null \<or> (\<exists>t. v = Date t)"
    using assms(3) by auto
  obtain df' where r: "date_filter df (Some c) date1 date2 = Inr df'"
    using assms(1) g compare_col_total [OF dn]
    by (simp add: date_filter_def)
  from date_filter_Inr [OF assms(1) r] r show ?thesis by simp
qed

lemma in_range_not_Null: "in_range date1 date2 v \<Longrightarrow> v \<noteq> Null"
  by (cases v) auto

text \<open>
  C5. With the date role bound to a header \<open>c\<close> of the table, date cleaning does not raise:
  it returns the table whose column \<open>c\<close> holds, for every cell, the parsed date, or the
  missing value when the parser rejects the cell (as pandas does for the text 2023-13-40, read
  here by the ISO instance of the parser); on the cleaned table the date range filter returns
  too. And whenever the date range filter is active on any table \<open>fd\<close> and returns, it keeps
  exactly the rows whose date passes the inclusive range test, so no row that is left has a
  missing date.
\<close>

theorem date_cleaning_and_filter:
  "(c \<noteq> [] \<and> c \<in> set (columns df) \<longrightarrow>
      (\<exists>df1. clean_dates to_datetime df (Some c) = Inr df1 \<and>
         getcol df1 c = Inr (map (\<lambda>r. coerce_date to_datetime (value_at r c)) (rows df)) \<and>
         (\<exists>df2. date_filter df1 (Some c) date1 date2 = Inr df2))) \<and>
   (\<forall>v. to_datetime v = None \<longrightarrow> coerce_date to_datetime v = Null) \<and>
   (\<forall>df2. c \<noteq> [] \<and> date_filter fd (Some c) date1 date2 = Inr df2 \<longrightarrow>
      rows df2 = filter (\<lambda>r. in_range date1 date2 (value_at r c)) (rows fd) \<and>
      (\<forall>r \<in> set (rows df2). value_at r c \<noteq> Null)) \<and>
   coerce_date to_datetime_iso (Str ''2023-13-40'') = Null"
proof -
  have a: "\<exists>df1. clean_dates to_datetime df (Some c) = Inr df1 \<and>
         getcol df1 c = Inr (map (\<lambda>r. coerce_date to_datetime (value_at r c)) (rows df)) \<and>
         (\<exists>df2. date_filter df1 (Some c) date1 date2 = Inr df2)"
    if h: "c \<noteq> []" "c \<in> set (columns df)"
  proof -
    let ?df1 = "setcol df c (map (\<lambda>r. coerce_date to_datetime (value_at r c)) (rows df))"
    from clean_dates_column [OF h, of to_datetime]
    have 1: "clean_dates to_datetime df (Some c) = Inr ?df1"
      and 2: "getcol ?df1 c = Inr (map (\<lambda>r. coerce_date to_datetime (value_at r c)) (rows df))"
      by simp_all
    from cleaned_dates_typed [OF h 1]
    have "\<exists>df2. date_filter ?df1 (Some c) date1 date2 = Inr df2"
      using date_filter_total [OF h(1), of ?df1 date1 date2] by blast
    with 1 2 show ?thesis by blast
  qed
  have b: "\<forall>v. to_datetime v = None \<longrightarrow> coerce_date to_datetime v = Null"
    by (simp add: coerce_date_def)
  have c: "rows df2 = filter (\<lambda>r. in_range date1 date2 (value_at r c)) (rows fd) \<and>
      (\<forall>r \<in> set (rows df2). value_at r c \<noteq> Null)"
    if h: "c \<noteq> []" "date_filter fd (Some c) date1 date2 = Inr df2" for df2
    using date_filter_Inr [OF h] in_range_not_Null by auto
  have d: "coerce_date to_datetime_iso (Str ''2023-13-40'') = Null"
    by code_simp
  from a b c d show ?thesis by blast
qed


theorem date_cleaning_and_filter_witness:
  "''Order Date'' \<noteq> [] \<and> ''Order Date'' \<in> set (columns raw_table) \<and>
   clean_dates to_datetime_iso raw_table (Some ''Order Date'') =
     Inr \<lparr>columns = [''Order Date'', ''Sales''],
          rows = [[(''Order Date'', Date (Timestamp 2023 3 1 0)), (''Sales'', Str ''$1,234.50'')],
                  [(''Order Date'', Null), (''Sales'', Str ''abc'')],
                  [(''Order Date'', Date (Timestamp 2022 12 24 0)), (''Sales'', Str [])]]\<rparr> \<and>
   date_filter
     \<lparr>columns = [''Order Date'', ''Sales''],
      rows = [[(''Order Date'', Date (Timestamp 2023 3 1 0)), (''Sales'', Str ''$1,234.50'')],
              [(''Order Date'', Null), (''Sales'', Str ''abc'')],
              [(''Order Date'', Date (Timestamp 2022 12 24 0)), (''Sales'', Str [])]]\<rparr>
     (Some ''Order Date'') (Timestamp 2022 1 1 0) (Timestamp 2023 12 31 0) =
     Inr \<lparr>columns = [''Order Date'', ''Sales''],
          rows = [[(''Order Date'', Date (Timestamp 2023 3 1 0)), (''Sales'', Str ''$1,234.50'')],
                  [(''Order Date'', Date (Timestamp 2022 12 24 0)), (''Sales'', Str [])]]\<rparr> \<and>
   Null \<notin> (\<lambda>r. value_at r ''Order Date'') `
     set [[(''Order Date'', Date (Timestamp 2023 3 1 0)), (''Sales'', Str ''$1,234.50'')],
          [(''Order Date'', Date (Timestamp 2022 12 24 0)), (''Sales'', Str [])]]"
proof -
  let ?c = "''Order Date''"
  let ?t1 = "\<lparr>columns = [''Order Date'', ''Sales''],
      rows = [[(''Order Date'', Date (Timestamp 2023 3 1 0)), (''Sales'', Str ''$1,234.50'')],
              [(''Order Date'', Null), (''Sales'', Str ''abc'')],
              [(''Order Date'', Date (Timestamp 2022 12 24 0)), (''Sales'', Str [])]]\<rparr>"
  let ?t2 = "\<lparr>columns = [''Order Date'', ''Sales''],
          rows = [[(''Order Date'', Date (Timestamp 2023 3 1 0)), (''Sales'', Str ''$1,234.50'')],
                  [(''Order Date'', Date (Timestamp 2022 12 24 0)), (''Sales'', Str [])]]\<rparr>"
  have h: "?c \<noteq> [] \<and> ?c \<in> set (columns raw_table)"
    by (simp add: raw_table_def)
  have ev1: "clean_dates to_datetime_iso raw_table (Some ?c) = Inr ?t1"
    by code_simp
  have ev2: "date_filter ?t1 (Some ?c) (Timestamp 2022 1 1 0) (Timestamp 2023 12 31 0) = Inr ?t2"
    by code_simp
  from date_cleaning_and_filter
         [of ?c raw_table to_datetime_iso "Timestamp 2022 1 1 0" "Timestamp 2023 12 31 0" ?t1]
       h ev2
  have "\<forall>r \<in> set (rows ?t2). value_at r ?c \<noteq> Null"
    by blast
  then have "Null \<notin> (\<lambda>r. value_at r ?c) ` set (rows ?t2)"
    by auto
  with h ev1 ev2 show ?thesis by simp
qed

subsection \<open>Numeric cleaning\<close>

lemma clean_text_filter:
  "clean_text s = strip (filter (\<lambda>ch. ch \<noteq> CHR '','' \<and> ch \<noteq> CHR ''$'') s)"
  by (simp add: clean_text_def delete_chr_def conj_commute)

lemma clean_numeric_cell_eq:
  "clean_numeric_cell repr to_numeric v =
     (case to_numeric (strip (filter (\<lambda>ch. ch \<noteq> CHR '','' \<and> ch \<noteq> CHR ''$'') (astype_str repr v))) of
        Some x \<Rightarrow> Num x
      | None \<Rightarrow> Num 0)"
  by (simp add: clean_numeric_cell_def clean_text_filter coerce_numeric_def fillna0_def
      split: option.splits)

lemma clean_numeric_cell_Num: "\<exists>x. clean_numeric_cell repr to_numeric v = Num x"
  by (simp add: clean_numeric_cell_eq split: option.splits)

lemma strip_untouched:
  assumes "s = [] \<or> (\<not> is_space (hd s) \<and> \<not> is_space (last s))"
  shows "strip s = s"
proof (cases s)
  case Nil
  then show ?thesis by (simp add: strip_def)
next
  case (Cons a list)
  with assms have h: "\<not> is_space (hd s)" and l: "\<not> is_space (last s)" by auto
  from Cons h have 1: "dropWhile is_space s = s" by simp
  from Cons have "rev s \<noteq> []" by simp
  moreover have "hd (rev s) = last s" by (rule hd_rev)
  with l have "\<not> is_space (hd (rev s))" by simp
  ultimately have 2: "dropWhile is_space (rev s) = rev s"
    by (cases "rev s") auto
  show ?thesis by (simp add: strip_def 1 2)
qed

lemma funpow_map_swap: "map (f ^^ n) (map f xs) = map (f ^^ Suc n) xs"
  by (simp add: funpow_swap1)

lemma clean_numeric_column:
  assumes "\<forall>col \<in> set cols. \<forall>c'. col = Some c' \<and> c' \<noteq> [] \<longrightarrow> c' \<in> set (columns df)"
    and "getcol df c = Inr vals"
  shows "\<exists>df'. clean_numeric repr to_numeric df cols = Inr df' \<and>
           set (columns df') = set (columns df) \<and>
           getcol df' c =
             Inr (map (clean_numeric_cell repr to_numeric ^^
                        (if c = [] then 0 else count_list cols (Some c))) vals)"
  using assms
proof (induction cols arbitrary: df vals)
  case Nil
  then show ?case by simp
next
  case (Cons col rest)
  let ?F = "clean_numeric_cell repr to_numeric"
  have rest_ok: "\<forall>col \<in> set rest. \<forall>c'. col = Some c' \<and> c' \<noteq> [] \<longrightarrow> c' \<in> set (columns df)"
    using Cons.prems(1) by simp
  show ?case
  proof (cases "\<exists>c'. col = Some c' \<and> c' \<noteq> []")
    case False
    then have skip: "clean_numeric repr to_numeric df (col # rest) =
                       clean_numeric repr to_numeric df rest"
      by (cases col) auto
    have cnt: "(if c = [] then 0 else count_list (col # rest) (Some c)) =
               (if c = [] then 0 else count_list rest (Some c))"
      using False by auto
    from Cons.IH [OF rest_ok Cons.prems(2)] show ?thesis
      unfolding skip cnt .
  next
    case True
    then obtain c' where col: "col = Some c'" and ne: "c' \<noteq> []" by blast
    have c'_in: "c' \<in> set (columns df)"
      using Cons.prems(1) col ne by simp
    let ?vals' = "map (\<lambda>r. value_at r c') (rows df)"
    let ?df2 = "setcol df c' (map ?F ?vals')"
    have g': "getcol df c' = Inr ?vals'"
      using c'_in by (rule getcol_header)
    have step: "clean_numeric repr to_numeric df (col # rest) =
                  clean_numeric repr to_numeric ?df2 rest"
      using col ne g' by simp
    have cols2: "set (columns ?df2) = set (columns df)"
      using c'_in by (auto simp: columns_setcol)
    have rest_ok2: "\<forall>col \<in> set rest. \<forall>c'. col = Some c' \<and> c' \<noteq> [] \<longrightarrow> c' \<in> set (columns ?df2)"
      using rest_ok cols2 by simp
    have len: "length (map ?F ?vals') = length (rows df)" by simp
    show ?thesis
    proof (cases "c' = c")
      case True
      have vals: "vals = ?vals'"
        using getcol_values [OF Cons.prems(2)] True by simp
      have g2: "getcol ?df2 c = Inr (map ?F vals)"
        using getcol_setcol_same [OF len] True vals by simp
      from Cons.IH [OF rest_ok2 g2] obtain df' where
        r: "clean_numeric repr to_numeric ?df2 rest = Inr df'" and
        cs: "set (columns df') = set (columns ?df2)" and
        g: "getcol df' c = Inr (map (?F ^^ (if c = [] then 0 else count_list rest (Some c)))
                                  (map ?F vals))"
        by blast
      have "getcol df' c = Inr (map (?F ^^ (if c = [] then 0 else count_list (col # rest) (Some c))) vals)"
        using g col True ne by (simp add: funpow_swap1)
      with r cs cols2 step show ?thesis by simp
    next
      case False
      have g2: "getcol ?df2 c = Inr vals"
        using getcol_setcol_other [OF len, of c c'] False Cons.prems(2) by simp
      from Cons.IH [OF rest_ok2 g2] obtain df' where
        r: "clean_numeric repr to_numeric ?df2 rest = Inr df'" and
        cs: "set (columns df') = set (columns ?df2)" and
        g: "getcol df' c = Inr (map (?F ^^ (if c = [] then 0 else count_list rest (Some c))) vals)"
        by blast
      have "count_list (col # rest) (Some c) = count_list rest (Some c)"
        using col False by simp
      with r cs cols2 step g show ?thesis by simp
    qed
  qed
qed

lemma clean_text_untouched: "untouched s \<Longrightarrow> clean_text s = s"
proof -
  assume u: "untouched s"
  then have "filter (\<lambda>ch. ch \<noteq> CHR '','' \<and> ch \<noteq> CHR ''$'') s = s"
    by (auto simp: untouched_def filter_id_conv)
  moreover from u have "strip s = s"
    by (intro strip_untouched) (simp add: untouched_def)
  ultimately show ?thesis by (simp add: clean_text_filter)
qed

lemma clean_numeric_cell_fixed:
  assumes "to_numeric (repr (Num x)) = Some x" and "untouched (repr (Num x))"
  shows "clean_numeric_cell repr to_numeric (Num x) = Num x"
  using assms
  by (simp add: clean_numeric_cell_def clean_text_untouched coerce_numeric_def fillna0_def)

lemma funpow_fixed: "f x = x \<Longrightarrow> (f ^^ n) x = x"
  by (induction n) auto

lemma clean_numeric_fixed_column:
  assumes "c \<noteq> []" and "Some c \<in> set cols"
    and "\<forall>col \<in> set cols. \<forall>c'. col = Some c' \<and> c' \<noteq> [] \<longrightarrow> c' \<in> set (columns df)"
    and "\<forall>r \<in> set (rows df). \<exists>x. value_at r c = Num x \<and>
            to_numeric (repr (Num x)) = Some x \<and> untouched (repr (Num x))"
  shows "\<exists>df'. clean_numeric repr to_numeric df cols = Inr df' \<and>
           getcol df' c = getcol df c \<and>
           getcol df c = Inr (map (\<lambda>r. value_at r c) (rows df))"
proof -
  let ?F = "clean_numeric_cell repr to_numeric"
  let ?vals = "map (\<lambda>r. value_at r c) (rows df)"
  have c_in: "c \<in> set (columns df)"
    using assms(1,2,3) by blast
  then have g: "getcol df c = Inr ?vals"
    by (rule getcol_header)
  have fixed: "?F (value_at r c) = value_at r c" if "r \<in> set (rows df)" for r
  proof -
    from assms(4) that obtain x where "value_at r c = Num x"
      and "to_numeric (repr (Num x)) = Some x" and "untouched (repr (Num x))"
      by blast
    then show ?thesis by (simp add: clean_numeric_cell_fixed)
  qed
  have "map (?F ^^ n) ?vals = ?vals" for n
    using fixed by (simp add: funpow_fixed map_idI)
  with clean_numeric_column [OF assms(3) g, of repr to_numeric] g
  show ?thesis by auto
qed

lemma digit_chr_numerals:
  "digit_chr 0 = CHR ''0''" "digit_chr 1 = CHR ''1''" "digit_chr 2 = CHR ''2''"
  "digit_chr 3 = CHR ''3''" "digit_chr 4 = CHR ''4''" "digit_chr 5 = CHR ''5''"
  "digit_chr 6 = CHR ''6''" "digit_chr 7 = CHR ''7''" "digit_chr 8 = CHR ''8''"
  "digit_chr 9 = CHR ''9''" "digit_chr (Suc 0) = CHR ''1''"
  by code_simp+

lemmas to_numeric_dec_eval =
  to_numeric_dec_def unsigned_dec_def is_digit_def nat_of_digits_def

lemma clean_numeric_cell_Str:
  "clean_numeric_cell repr to_numeric (Str s) =
     fillna0 (coerce_numeric to_numeric (clean_text s))"
  by (simp add: clean_numeric_cell_def)

lemma spec_clean_numeric_cell_Str:
  "spec_clean_numeric_cell repr to_numeric (Str s) =
     fillna0 (coerce_numeric to_numeric (spec_clean_text s))"
  by (simp add: spec_clean_numeric_cell_def)

lemma clean_text_examples:
  "clean_text ''$1,234.50'' = ''1234.50''"
  "clean_text [] = []"
  "clean_text ''abc'' = ''abc''"
  "clean_text ''1,2'' = ''12''"
  "clean_text ''12$34'' = ''1234''"
  "clean_text ''100$'' = ''100''"
  "spec_clean_text ''100$'' = ''100$''"
  by code_simp+

lemma to_numeric_dec_examples:
  "to_numeric_dec ''1234.50'' = Some 1234.5"
  "to_numeric_dec [] = None"
  "to_numeric_dec ''abc'' = None"
  "to_numeric_dec ''12'' = Some 12"
  "to_numeric_dec ''1234'' = Some 1234"
  "to_numeric_dec ''100'' = Some 100"
  "to_numeric_dec ''100$'' = None"
  "to_numeric_dec ''5'' = Some 5"
  "to_numeric_dec ''7'' = Some 7"
  "to_numeric_dec ''1'' = Some 1"
  by (simp_all add: to_numeric_dec_eval)

lemma cleaner_examples:
  "clean_numeric_cell repr to_numeric_dec (Str ''$1,234.50'') = Num 1234.5"
  "clean_numeric_cell repr to_numeric_dec (Str []) = Num 0"
  "clean_numeric_cell repr to_numeric_dec (Str ''abc'') = Num 0"
  "clean_numeric_cell repr to_numeric_dec (Str ''1,2'') = Num 12"
  "clean_numeric_cell repr to_numeric_dec (Str ''12$34'') = Num 1234"
  "clean_numeric_cell repr to_numeric_dec (Str ''100$'') = Num 100"
  "spec_clean_numeric_cell repr to_numeric_dec (Str ''100$'') = Num 0"
  by (simp_all add: clean_numeric_cell_Str spec_clean_numeric_cell_Str clean_text_examples
      to_numeric_dec_examples coerce_numeric_def fillna0_def)

text \<open>
  C10. On a string cell the cleaner deletes every comma and every dollar sign, wherever it
  stands, before it trims and parses: the text 1,2 cleans to 12 and the text 12$34 cleans to
  1234, not to zero.
\<close>

theorem cleaner_deletes_every_comma_and_dollar:
  "clean_numeric_cell repr to_numeric (Str s) =
     (case to_numeric (strip (filter (\<lambda>ch. ch \<noteq> CHR '','' \<and> ch \<noteq> CHR ''$'') s)) of
        Some x \<Rightarrow> Num x
      | None \<Rightarrow> Num 0) \<and>
   clean_numeric_cell repr to_numeric_dec (Str ''1,2'') = Num 12 \<and>
   clean_numeric_cell repr to_numeric_dec (Str ''12$34'') = Num 1234 \<and>
   Num 1234 \<noteq> Num 0"
  using clean_numeric_cell_eq [of repr to_numeric "Str s"]
  by (simp add: cleaner_examples)

text \<open>
  C4, as stated: the edit strips "a leading currency symbol". The script deletes the dollar
  sign wherever it stands: the cell 100$ cleans to 100, where the edit as the claim words
  it leaves the text 100$, which does not parse, and gives zero.
\<close>

theorem numeric_cleaning_counterexample:
  "clean_numeric_cell (py_str False) to_numeric_dec (Str ''100$'') = Num 100 \<and>
   spec_clean_numeric_cell (py_str False) to_numeric_dec (Str ''100$'') = Num 0 \<and>
   clean_numeric_cell (py_str False) to_numeric_dec (Str ''100$'') \<noteq>
     spec_clean_numeric_cell (py_str False) to_numeric_dec (Str ''100$'')"
  by (simp add: cleaner_examples)

lemma dropWhile_hd: "t \<noteq> [] \<Longrightarrow> \<not> P (hd t) \<Longrightarrow> dropWhile P t = t"
  by (cases t) auto

lemma strip_padded:
  assumes "list_all is_space a" and "list_all is_space b"
    and "s = [] \<or> (\<not> is_space (hd s) \<and> \<not> is_space (last s))"
  shows "strip (a @ s @ b) = s"
proof (cases "s = []")
  case True
  have "\<forall>x \<in> set (a @ b). is_space x"
    using assms(1,2) by (auto simp: list_all_iff)
  then have d: "dropWhile is_space (a @ b) = []"
    by (simp only: dropWhile_eq_Nil_conv)
  have "strip (a @ b) = []"
    unfolding strip_def d by simp
  with True show ?thesis by simp
next
  case False
  with assms(3) have h: "\<not> is_space (hd s)" and l: "\<not> is_space (last s)" by auto
  have "dropWhile is_space (a @ s @ b) = dropWhile is_space (s @ b)"
    using assms(1) by (simp add: dropWhile_append2 list_all_iff)
  also have "\<dots> = s @ b"
    using False h by (cases s) auto
  finally have 1: "dropWhile is_space (a @ s @ b) = s @ b" .
  have "dropWhile is_space (rev b @ rev s) = dropWhile is_space (rev s)"
    by (rule dropWhile_append2) (use assms(2) in \<open>auto simp: list_all_iff\<close>)
  then have "dropWhile is_space (rev (s @ b)) = dropWhile is_space (rev s)"
    by simp
  also have "\<dots> = rev s"
  proof -
    have "rev s \<noteq> []" using False by simp
    moreover have "\<not> is_space (hd (rev s))" using l by (simp add: hd_rev)
    ultimately show ?thesis by (rule dropWhile_hd)
  qed
  finally have 2: "dropWhile is_space (rev (s @ b)) = rev s" .
  show ?thesis
    unfolding strip_def 1 2 by simp
qed

lemma space_examples:
  "is_space CHR '' ''" "is_space (CHR 0x09)" "is_space (CHR 0x0A)" "is_space (CHR 0x0D)"
  "\<not> is_space CHR ''1''" "\<not> is_space CHR ''$''" "\<not> is_space CHR ''.''"
  by code_simp+

lemma clean_text_spaces:
  "clean_text ''  $1,234.50 '' = ''1234.50''"
  "clean_text [CHR 0x09, CHR ''4'', CHR ''2'', CHR 0x0D, CHR 0x0A] = ''42''"
  "clean_text ''1 2'' = ''1 2''"
  by code_simp+

lemma to_numeric_dec_spaces:
  "to_numeric_dec ''42'' = Some 42"
  "to_numeric_dec ''1 2'' = None"
  by (simp_all add: to_numeric_dec_eval)

lemma cleaner_space_examples:
  "clean_numeric_cell repr to_numeric_dec (Str ''  $1,234.50 '') = Num 1234.5"
  "clean_numeric_cell repr to_numeric_dec (Str [CHR 0x09, CHR ''4'', CHR ''2'', CHR 0x0D, CHR 0x0A])
     = Num 42"
  "clean_numeric_cell repr to_numeric_dec (Str ''1 2'') = Num 0"
  by (simp_all add: clean_numeric_cell_Str clean_text_spaces to_numeric_dec_spaces
      to_numeric_dec_examples coerce_numeric_def fillna0_def)

text \<open>
  C4, amended. Numeric cleaning maps each cell to a number, never to the missing value:
  it deletes every comma and every dollar sign of the cell's text, trims the whitespace at
  both ends (and none inside) and parses; a text the parser rejects, the empty text among
  them, becomes zero. After the loop a column holds its cells put through this map once for
  every numeric role that is bound to it (once for a column bound to one role; a column no
  numeric role is bound to is unchanged). The text $1,234.50 becomes 1234.50, also with
  whitespace around it, the empty text becomes 0, and abc becomes 0.
\<close>

theorem numeric_cleaning:
  "(c \<noteq> [] \<and> c \<in> set (columns df) \<and>
    (\<forall>col \<in> set cols. \<forall>c'. col = Some c' \<and> c' \<noteq> [] \<longrightarrow> c' \<in> set (columns df)) \<longrightarrow>
      (\<exists>df'. clean_numeric repr to_numeric df cols = Inr df' \<and>
         getcol df' c =
           Inr (map (\<lambda>r. (clean_numeric_cell repr to_numeric ^^ count_list cols (Some c))
                            (value_at r c)) (rows df)))) \<and>
   clean_numeric_cell repr to_numeric v =
     (case to_numeric (strip (filter (\<lambda>ch. ch \<noteq> CHR '','' \<and> ch \<noteq> CHR ''$'')
                               (astype_str repr v))) of
        Some x \<Rightarrow> Num x
      | None \<Rightarrow> Num 0) \<and>
   clean_numeric_cell repr to_numeric v \<noteq> Null \<and>
   (list_all is_space a \<and> list_all is_space b \<and>
    (s = [] \<or> (\<not> is_space (hd s) \<and> \<not> is_space (last s))) \<longrightarrow> strip (a @ s @ b) = s) \<and>
   is_space CHR '' '' \<and> is_space (CHR 0x09) \<and> is_space (CHR 0x0A) \<and> is_space (CHR 0x0D) \<and>
   clean_numeric_cell repr to_numeric_dec (Str ''$1,234.50'') = Num 1234.5 \<and>
   clean_numeric_cell repr to_numeric_dec (Str []) = Num 0 \<and>
   clean_numeric_cell repr to_numeric_dec (Str ''abc'') = Num 0 \<and>
   clean_numeric_cell repr to_numeric_dec (Str ''  $1,234.50 '') = Num 1234.5 \<and>
   clean_numeric_cell repr to_numeric_dec (Str [CHR 0x09, CHR ''4'', CHR ''2'', CHR 0x0D, CHR 0x0A])
     = Num 42 \<and>
   clean_numeric_cell repr to_numeric_dec (Str ''1 2'') = Num 0"
proof -
  have col: "\<exists>df'. clean_numeric repr to_numeric df cols = Inr df' \<and>
         getcol df' c =
           Inr (map (\<lambda>r. (clean_numeric_cell repr to_numeric ^^ count_list cols (Some c))
                            (value_at r c)) (rows df))"
    if h: "c \<noteq> []" "c \<in> set (columns df)"
      "\<forall>col \<in> set cols. \<forall>c'. col = Some c' \<and> c' \<noteq> [] \<longrightarrow> c' \<in> set (columns df)"
  proof -
    have g: "getcol df c = Inr (map (\<lambda>r. value_at r c) (rows df))"
      using h(2) by (rule getcol_header)
    from clean_numeric_column [OF h(3) g, of repr to_numeric] h(1)
    show ?thesis by (auto simp: comp_def)
  qed
  have nn: "clean_numeric_cell repr to_numeric v \<noteq> Null"
    using clean_numeric_cell_Num [of repr to_numeric v] by auto
  have st: "strip (a @ s @ b) = s"
    if "list_all is_space a" "list_all is_space b"
       "s = [] \<or> (\<not> is_space (hd s) \<and> \<not> is_space (last s))"
    using that by (rule strip_padded)
  from col nn st clean_numeric_cell_eq [of repr to_numeric v] cleaner_examples(1,2,3) [of repr]
    cleaner_space_examples [of repr] space_examples(1,2,3,4)
  show ?thesis by blast
qed

theorem numeric_cleaning_witness:
  "''Sales'' \<noteq> [] \<and> ''Sales'' \<in> set (columns raw_table) \<and>
   count_list [Some ''Sales'', None, None] (Some ''Sales'') = 1 \<and>
   (\<exists>df'. clean_numeric (py_str False) to_numeric_dec raw_table [Some ''Sales'', None, None] = Inr df' \<and>
      getcol df' ''Sales'' = Inr [Num 1234.5, Num 0, Num 0]) \<and>
   list_all is_space ''  '' \<and> list_all is_space '' '' \<and> \<not> is_space (hd ''1 2'') \<and>
   \<not> is_space (last ''1 2'') \<and> strip (''  '' @ ''1 2'' @ '' '') = ''1 2''"
proof -
  have h: "''Sales'' \<noteq> [] \<and> ''Sales'' \<in> set (columns raw_table) \<and>
    (\<forall>col \<in> set [Some ''Sales'', None, None]. \<forall>c'. col = Some c' \<and> c' \<noteq> []
        \<longrightarrow> c' \<in> set (columns raw_table))"
    by (simp add: raw_table_def)
  have cnt: "count_list [Some ''Sales'', None, None] (Some ''Sales'') = 1"
    by simp
  have sp: "list_all is_space ''  '' \<and> list_all is_space '' '' \<and> \<not> is_space (hd ''1 2'') \<and>
   \<not> is_space (last ''1 2'')"
    by (simp add: is_space_def)
  have vals: "map (\<lambda>r. (clean_numeric_cell (py_str False) to_numeric_dec ^^ 1) (value_at r ''Sales''))
                (rows raw_table) = [Num 1234.5, Num 0, Num 0]"
    by (simp add: raw_table_def value_at_def cleaner_examples)
  note inst = numeric_cleaning [of "''Sales''" raw_table "[Some ''Sales'', None, None]" "py_str False"
         to_numeric_dec _ "''  ''" "'' ''" "''1 2''"]
  from inst h
  have "\<exists>df'. clean_numeric (py_str False) to_numeric_dec raw_table [Some ''Sales'', None, None] = Inr df' \<and>
      getcol df' ''Sales'' =
        Inr (map (\<lambda>r. (clean_numeric_cell (py_str False) to_numeric_dec ^^
                          count_list [Some ''Sales'', None, None] (Some ''Sales''))
                        (value_at r ''Sales'')) (rows raw_table))"
    by blast
  then have 1: "\<exists>df'. clean_numeric (py_str False) to_numeric_dec raw_table [Some ''Sales'', None, None] = Inr df' \<and>
      getcol df' ''Sales'' = Inr [Num 1234.5, Num 0, Num 0]"
    unfolding cnt vals .
  from inst sp have 2: "strip (''  '' @ ''1 2'' @ '' '') = ''1 2''"
    by blast
  from h cnt 1 sp 2 show ?thesis by blast
qed

lemma of_char_digit_chr: "d < 10 \<Longrightarrow> of_char (digit_chr d) = 48 + d"
  by (simp add: digit_chr_def)

lemma is_digit_digit_chr: "d < 10 \<Longrightarrow> is_digit (digit_chr d)"
  by (simp add: is_digit_def of_char_digit_chr)

lemma fold_digits_acc:
  "fold (\<lambda>c n. 10 * n + ((of_char c :: nat) - 48)) ds a =
     a * 10 ^ length ds + fold (\<lambda>c n. 10 * n + ((of_char c :: nat) - 48)) ds 0"
proof (induction ds arbitrary: a)
  case Nil
  show ?case by simp
next
  case (Cons c ds)
  let ?g = "\<lambda>c n. 10 * n + ((of_char c :: nat) - 48)"
  let ?d = "(of_char c :: nat) - 48"
  have "fold ?g (c # ds) a = fold ?g ds (10 * a + ?d)"
    by simp
  also have "\<dots> = (10 * a + ?d) * 10 ^ length ds + fold ?g ds 0"
    by (rule Cons.IH)
  also have "\<dots> = a * 10 ^ length (c # ds) + (?d * 10 ^ length ds + fold ?g ds 0)"
    by (simp add: distrib_right)
  also have "?d * 10 ^ length ds + fold ?g ds 0 = fold ?g ds ?d"
    by (rule Cons.IH [symmetric])
  also have "fold ?g ds ?d = fold ?g (c # ds) 0"
    by simp
  finally show ?case .
qed

lemma nat_of_digits_append:
  "nat_of_digits (xs @ ys) = nat_of_digits xs * 10 ^ length ys + nat_of_digits ys"
  unfolding nat_of_digits_def by (simp add: fold_digits_acc [of ys "fold _ xs 0"])

lemma nat_of_digits_single: "d < 10 \<Longrightarrow> nat_of_digits [digit_chr d] = d"
  by (simp add: nat_of_digits_def of_char_digit_chr)

lemma nat_of_digits_Nil [simp]: "nat_of_digits [] = 0"
  by (simp add: nat_of_digits_def)

lemma nat_of_digits_Cons:
  "d < 10 \<Longrightarrow> nat_of_digits (digit_chr d # ds) = d * 10 ^ length ds + nat_of_digits ds"
  using nat_of_digits_append [of "[digit_chr d]" ds] by (simp add: nat_of_digits_single)

lemma str_of_nat_digits:
  "list_all is_digit (str_of_nat n) \<and> str_of_nat n \<noteq> [] \<and> nat_of_digits (str_of_nat n) = n"
proof (induction n rule: str_of_nat.induct)
  case (1 n)
  show ?case
  proof (cases "n < 10")
    case True
    then show ?thesis
      by (subst (1 2 3) str_of_nat.simps) (simp add: is_digit_digit_chr nat_of_digits_single)
  next
    case False
    have m: "n mod 10 < 10" by simp
    from False 1 have ih: "list_all is_digit (str_of_nat (n div 10))"
      "nat_of_digits (str_of_nat (n div 10)) = n div 10"
      by simp_all
    have eq: "str_of_nat n = str_of_nat (n div 10) @ [digit_chr (n mod 10)]"
      using False by (subst str_of_nat.simps) simp
    show ?thesis
      unfolding eq using ih m
      by (simp add: is_digit_digit_chr nat_of_digits_append nat_of_digits_single)
  qed
qed

lemma frac_digits_value:
  assumes "0 \<le> f" and "f < 1" and "f * 10 ^ k \<in> \<int>"
  shows "list_all is_digit (frac_digits k f) \<and>
         real (nat_of_digits (frac_digits k f)) = f * 10 ^ length (frac_digits k f) \<and>
         (frac_digits k f = [] \<longleftrightarrow> f = 0)"
  using assms
proof (induction k arbitrary: f)
  case 0
  from 0(3) obtain z :: int where z: "f = of_int z"
    by (auto elim: Ints_cases)
  with 0(1,2) have "z = 0" by simp
  with z show ?case by simp
next
  case (Suc k)
  show ?case
  proof (cases "f = 0")
    case True
    then show ?thesis by simp
  next
    case False
    define i where "i = \<lfloor>10 * f\<rfloor>"
    define f' where "f' = 10 * f - of_int i"
    have i0: "0 \<le> i" using Suc.prems(1) by (simp add: i_def)
    have i9: "i < 10" using Suc.prems(2) by (simp add: i_def floor_less_iff)
    have d: "nat i < 10" and rd: "real (nat i) = of_int i"
      using i0 i9 by simp_all
    have f'0: "0 \<le> f'" and f'1: "f' < 1"
      unfolding f'_def i_def by linarith+
    have "f' * 10 ^ k = f * 10 ^ Suc k - of_int i * 10 ^ k"
      by (simp add: f'_def algebra_simps)
    then have f'Z: "f' * 10 ^ k \<in> \<int>"
      using Suc.prems(3) by simp
    note ih = Suc.IH [OF f'0 f'1 f'Z]
    have eq: "frac_digits (Suc k) f = digit_chr (nat i) # frac_digits k f'"
      using False by (simp add: i_def f'_def)
    have "real (nat_of_digits (frac_digits (Suc k) f)) =
            real (nat i) * 10 ^ length (frac_digits k f') + real (nat_of_digits (frac_digits k f'))"
      unfolding eq by (simp add: nat_of_digits_Cons [OF d])
    also have "\<dots> = (of_int i + f') * 10 ^ length (frac_digits k f')"
      using ih rd by (simp add: algebra_simps)
    also have "\<dots> = f * 10 ^ length (frac_digits (Suc k) f)"
      unfolding eq by (simp add: f'_def)
    finally have v: "real (nat_of_digits (frac_digits (Suc k) f)) =
                       f * 10 ^ length (frac_digits (Suc k) f)" .
    have "list_all is_digit (frac_digits (Suc k) f)"
      unfolding eq using ih is_digit_digit_chr [OF d] by simp
    with v False eq show ?thesis by simp
  qed
qed

lemma not_digit_point: "\<not> is_digit CHR ''.''"
  by (simp add: is_digit_def)

lemma unsigned_dec_whole:
  assumes "list_all is_digit ip" and "ip \<noteq> []"
  shows "unsigned_dec ip = Some (real (nat_of_digits ip))"
proof -
  have t: "takeWhile is_digit ip = ip" and d: "dropWhile is_digit ip = []"
    using assms(1) by (simp_all add: list_all_iff)
  show ?thesis
    unfolding unsigned_dec_def t d using assms(2) by simp
qed

lemma unsigned_dec_point:
  assumes "list_all is_digit ip" and "list_all is_digit fp" and "ip \<noteq> []"
  shows "unsigned_dec (ip @ CHR ''.'' # fp) =
           Some (real (nat_of_digits (ip @ fp)) / 10 ^ length fp)"
proof -
  have all: "\<And>x. x \<in> set ip \<Longrightarrow> is_digit x"
    using assms(1) by (simp add: list_all_iff)
  have t: "takeWhile is_digit (ip @ CHR ''.'' # fp) = ip"
    using takeWhile_append2 [of ip is_digit "CHR ''.'' # fp"] all not_digit_point by simp
  have d: "dropWhile is_digit (ip @ CHR ''.'' # fp) = CHR ''.'' # fp"
    using dropWhile_append2 [of ip is_digit "CHR ''.'' # fp"] all not_digit_point by simp
  show ?thesis
    unfolding unsigned_dec_def t d using assms(2,3) by simp
qed

lemma to_numeric_dec_unsigned:
  assumes "s \<noteq> []" and "is_digit (hd s)"
  shows "to_numeric_dec s = unsigned_dec s"
proof -
  from assms(1) obtain c r where s: "s = c # r" by (cases s) auto
  with assms(2) have "c \<noteq> CHR ''-''" "c \<noteq> CHR ''+''"
    by (auto simp: is_digit_def)
  with s show ?thesis by (simp add: to_numeric_dec_def)
qed

lemma to_numeric_dec_minus: "to_numeric_dec (CHR ''-'' # u) = map_option uminus (unsigned_dec u)"
  by (simp add: to_numeric_dec_def)

lemma plain_chr_kept: "plain_chr c \<Longrightarrow> c \<noteq> CHR '','' \<and> c \<noteq> CHR ''$'' \<and> \<not> is_space c"
  by (auto simp: plain_chr_def is_digit_def is_space_def)

lemma plain_untouched:
  assumes "list_all plain_chr s"
  shows "untouched s"
proof (cases "s = []")
  case True
  then show ?thesis by (simp add: untouched_def)
next
  case False
  then have "hd s \<in> set s" "last s \<in> set s" by simp_all
  with assms have "plain_chr (hd s)" "plain_chr (last s)"
    by (simp_all add: list_all_iff)
  moreover have "c \<notin> set s" if "\<not> plain_chr c" for c
    using assms that by (auto simp: list_all_iff)
  ultimately show ?thesis
    using plain_chr_kept by (auto simp: untouched_def)
qed

lemma decimal17_Ints: "decimal17 x \<longleftrightarrow> x * 10 ^ 17 \<in> \<int>"
proof
  assume "decimal17 x"
  then have "x * 10 ^ 17 = of_int \<lfloor>x * 10 ^ 17\<rfloor>"
    unfolding decimal17_def by (rule sym)
  then show "x * 10 ^ 17 \<in> \<int>"
    by (metis Ints_of_int)
next
  assume "x * 10 ^ 17 \<in> \<int>"
  then obtain z :: int where "x * 10 ^ 17 = of_int z"
    by (auto elim: Ints_cases)
  then show "decimal17 x"
    by (simp add: decimal17_def)
qed

lemma decimal17_minus: "decimal17 x \<Longrightarrow> decimal17 (- x)"
  unfolding decimal17_Ints by (metis Ints_minus mult_minus_left)

lemma unsigned_str_round_trip:
  assumes "0 \<le> x" and "decimal17 x"
  shows "unsigned_dec (unsigned_str pt x) = Some x \<and>
         list_all plain_chr (unsigned_str pt x) \<and>
         unsigned_str pt x \<noteq> [] \<and> is_digit (hd (unsigned_str pt x))"
proof -
  define n where "n = nat \<lfloor>x\<rfloor>"
  define f where "f = x - of_int \<lfloor>x\<rfloor>"
  define ip where "ip = str_of_nat n"
  define fd where "fd = frac_digits 17 f"
  have rn: "real n = of_int \<lfloor>x\<rfloor>"
    using assms(1) by (simp add: n_def)
  have x: "x = real n + f"
    by (simp add: f_def rn)
  have f0: "0 \<le> f" and f1: "f < 1"
    unfolding f_def by linarith+
  have "f * 10 ^ 17 = x * 10 ^ 17 - of_int \<lfloor>x\<rfloor> * 10 ^ 17"
    by (simp add: f_def algebra_simps)
  moreover have "x * 10 ^ 17 \<in> \<int>"
    using assms(2) by (simp only: decimal17_Ints)
  ultimately have fZ: "f * 10 ^ 17 \<in> \<int>"
    by simp
  from frac_digits_value [OF f0 f1 fZ]
  have fd_dig: "list_all is_digit fd" and
    fd_val: "real (nat_of_digits fd) = f * 10 ^ length fd" and
    fd_nil: "fd = [] \<longleftrightarrow> f = 0"
    by (simp_all add: fd_def)
  from str_of_nat_digits [of n]
  have ip_dig: "list_all is_digit ip" and ip_ne: "ip \<noteq> []" and ip_val: "nat_of_digits ip = n"
    by (simp_all add: ip_def)
  have hd_ip: "is_digit (hd ip)"
    using ip_dig ip_ne by (cases ip) auto
  have dig_plain: "list_all plain_chr ds" if "list_all is_digit ds" for ds
    using that by (auto simp: list_all_iff plain_chr_def)
  have str: "unsigned_str pt x =
      (if fd = [] then (if pt then ip @ CHR ''.'' # ''0'' else ip) else ip @ CHR ''.'' # fd)"
    by (simp add: unsigned_str_def Let_def ip_def fd_def n_def f_def)
  have zero: "list_all is_digit ''0''" "nat_of_digits ''0'' = 0"
    by (simp_all add: is_digit_def nat_of_digits_def)
  show ?thesis
  proof (cases "fd = []")
    case True
    with fd_nil x have xn: "x = real n" by simp
    show ?thesis
    proof (cases pt)
      case True
      have "unsigned_dec (ip @ CHR ''.'' # ''0'') = Some (real (nat_of_digits (ip @ ''0'')) / 10 ^ length ''0'')"
        using ip_dig zero(1) ip_ne by (rule unsigned_dec_point)
      also have "\<dots> = Some x"
        by (simp add: nat_of_digits_append ip_val zero(2) xn)
      finally have "unsigned_dec (ip @ CHR ''.'' # ''0'') = Some x" .
      moreover have "list_all plain_chr (ip @ CHR ''.'' # ''0'')"
        using dig_plain [OF ip_dig] dig_plain [OF zero(1)] by (simp add: plain_chr_def)
      ultimately show ?thesis
        unfolding str using \<open>fd = []\<close> True ip_ne hd_ip by simp
    next
      case False
      have "unsigned_dec ip = Some x"
        using unsigned_dec_whole [OF ip_dig ip_ne] by (simp add: ip_val xn)
      then show ?thesis
        unfolding str using \<open>fd = []\<close> False ip_ne hd_ip dig_plain [OF ip_dig] by simp
    qed
  next
    case False
    have "unsigned_dec (ip @ CHR ''.'' # fd) = Some (real (nat_of_digits (ip @ fd)) / 10 ^ length fd)"
      using ip_dig fd_dig ip_ne by (rule unsigned_dec_point)
    also have "real (nat_of_digits (ip @ fd)) = real n * 10 ^ length fd + f * 10 ^ length fd"
      by (simp add: nat_of_digits_append ip_val fd_val)
    also have "(real n * 10 ^ length fd + f * 10 ^ length fd) / 10 ^ length fd = x"
      by (simp add: x field_simps)
    finally have "unsigned_dec (ip @ CHR ''.'' # fd) = Some x" .
    moreover have "list_all plain_chr (ip @ CHR ''.'' # fd)"
      using dig_plain [OF ip_dig] dig_plain [OF fd_dig] by (simp add: plain_chr_def)
    ultimately show ?thesis
      unfolding str using False ip_ne hd_ip by simp
  qed
qed

lemma num_str_round_trip:
  assumes "decimal17 x"
  shows "to_numeric_dec (num_str pt x) = Some x \<and> untouched (num_str pt x)"
proof (cases "x < 0")
  case True
  then have "0 \<le> - x" by simp
  from unsigned_str_round_trip [OF this decimal17_minus [OF assms], of pt]
  have p: "unsigned_dec (unsigned_str pt (- x)) = Some (- x)"
    and pl: "list_all plain_chr (unsigned_str pt (- x))"
    by simp_all
  have "to_numeric_dec (num_str pt x) = Some x"
    using True p by (simp add: num_str_def to_numeric_dec_minus)
  moreover have "list_all plain_chr (num_str pt x)"
    using True pl by (simp add: num_str_def plain_chr_def)
  ultimately show ?thesis
    using plain_untouched by blast
next
  case False
  then have "0 \<le> x" by simp
  from unsigned_str_round_trip [OF this assms, of pt]
  have p: "unsigned_dec (unsigned_str pt x) = Some x"
    and pl: "list_all plain_chr (unsigned_str pt x)"
    and ne: "unsigned_str pt x \<noteq> []" and h: "is_digit (hd (unsigned_str pt x))"
    by simp_all
  have "to_numeric_dec (num_str pt x) = Some x"
    using False p to_numeric_dec_unsigned [OF ne h] by (simp add: num_str_def)
  moreover have "list_all plain_chr (num_str pt x)"
    using False pl by (simp add: num_str_def)
  ultimately show ?thesis
    using plain_untouched by blast
qed

lemma frac_digits_numeral:
  "frac_digits (numeral k) f =
     (if f = 0 then []
      else digit_chr (nat \<lfloor>10 * f\<rfloor>) # frac_digits (pred_numeral k) (10 * f - of_int \<lfloor>10 * f\<rfloor>))"
  by (simp add: numeral_eq_Suc)

lemma num_str_examples:
  "num_str False 5 = ''5''"
  "num_str True 5 = ''5.0''"
  "num_str False 1234.5 = ''1234.5''"
  "num_str True 1234.5 = ''1234.5''"
  "num_str False (- 7.25) = ''-7.25''"
  "num_str False 0 = ''0''"
  "num_str False 0.05 = ''0.05''"
  by (simp_all add: num_str_def unsigned_str_def frac_digits_numeral str_of_nat.simps
      digit_chr_numerals Let_def)

lemma decimal17_examples:
  "decimal17 5" "decimal17 1234.5" "decimal17 (- 7.25)"
  by (simp_all add: decimal17_def)

text \<open>
  C8. Let the numeric role be bound to the header \<open>c\<close>, let every bound numeric column be
  a header of the table, and let every cell of column \<open>c\<close> be a number with at most 17
  decimal places. Numbers print in positional decimal notation (whole numbers with or
  without a trailing .0, as in a float or an integer column) and are parsed as decimal
  literals. Then the cleaning loop returns a table whose column \<open>c\<close> has the same values as
  before: no number is changed by printing it, deleting commas and dollar signs, trimming
  and parsing it again.
\<close>

theorem numeric_cleaning_idempotent:
  assumes "c \<noteq> []" and "Some c \<in> set cols"
    and "\<forall>col \<in> set cols. \<forall>c'. col = Some c' \<and> c' \<noteq> [] \<longrightarrow> c' \<in> set (columns df)"
    and "\<forall>r \<in> set (rows df). \<exists>x. value_at r c = Num x \<and> decimal17 x"
  shows "\<exists>df'. clean_numeric (py_str pt) to_numeric_dec df cols = Inr df' \<and>
           getcol df' c = getcol df c \<and>
           getcol df c = Inr (map (\<lambda>r. value_at r c) (rows df))"
proof -
  have "\<forall>r \<in> set (rows df). \<exists>x. value_at r c = Num x \<and>
          to_numeric_dec (py_str pt (Num x)) = Some x \<and> untouched (py_str pt (Num x))"
    using assms(4) num_str_round_trip [of _ pt] by (fastforce simp: py_str_def)
  with assms(1,2,3) show ?thesis
    by (rule clean_numeric_fixed_column)
qed

theorem numeric_cleaning_idempotent_witness:
  "''Sales'' \<noteq> [] \<and> Some ''Sales'' \<in> set [Some ''Sales'', None, Some ''Units''] \<and>
   ''Sales'' \<in> set (columns typed_table) \<and> ''Units'' \<in> set (columns typed_table) \<and>
   map (\<lambda>r. value_at r ''Sales'') (rows typed_table) = [Num 5, Num 1234.5, Num (- 7.25)] \<and>
   decimal17 5 \<and> decimal17 1234.5 \<and> decimal17 (- 7.25) \<and>
   py_str True (Num 5) = ''5.0'' \<and> py_str True (Num 1234.5) = ''1234.5'' \<and>
   py_str True (Num (- 7.25)) = ''-7.25'' \<and>
   (\<exists>df'. clean_numeric (py_str True) to_numeric_dec typed_table
            [Some ''Sales'', None, Some ''Units''] = Inr df' \<and>
      getcol df' ''Sales'' = Inr [Num 5, Num 1234.5, Num (- 7.25)])"
proof -
  have vals: "map (\<lambda>r. value_at r ''Sales'') (rows typed_table) = [Num 5, Num 1234.5, Num (- 7.25)]"
    by (simp add: typed_table_def value_at_def)
  have pr: "py_str True (Num 5) = ''5.0''" "py_str True (Num 1234.5) = ''1234.5''"
    "py_str True (Num (- 7.25)) = ''-7.25''"
    by (simp_all add: py_str_def num_str_def unsigned_str_def frac_digits_numeral
        str_of_nat.simps digit_chr_numerals Let_def)
  have h3: "\<forall>col \<in> set [Some ''Sales'', None, Some ''Units'']. \<forall>c'. col = Some c' \<and> c' \<noteq> []
        \<longrightarrow> c' \<in> set (columns typed_table)"
    by (simp add: typed_table_def)
  have h4: "\<forall>r \<in> set (rows typed_table). \<exists>x. value_at r ''Sales'' = Num x \<and> decimal17 x"
  proof
    fix r
    assume "r \<in> set (rows typed_table)"
    then have "value_at r ''Sales'' \<in> set (map (\<lambda>r. value_at r ''Sales'') (rows typed_table))"
      by simp
    then have "value_at r ''Sales'' = Num 5 \<or> value_at r ''Sales'' = Num 1234.5 \<or>
               value_at r ''Sales'' = Num (- 7.25)"
      unfolding vals by simp
    with decimal17_examples show "\<exists>x. value_at r ''Sales'' = Num x \<and> decimal17 x"
      by blast
  qed
  from numeric_cleaning_idempotent [of "''Sales''" "[Some ''Sales'', None, Some ''Units'']"
         typed_table True, OF _ _ h3 h4]
  obtain df' where
    "clean_numeric (py_str True) to_numeric_dec typed_table [Some ''Sales'', None, Some ''Units'']
       = Inr df'"
    "getcol df' ''Sales'' = getcol typed_table ''Sales''"
    "getcol typed_table ''Sales'' = Inr (map (\<lambda>r. value_at r ''Sales'') (rows typed_table))"
    by auto
  with vals pr decimal17_examples show ?thesis
    by (simp add: typed_table_def)
qed

subsection \<open>Loading\<close>

lemma try_delimiters_none:
  "list_all (\<lambda>d. rejected (rd d)) ds \<Longrightarrow> try_delimiters rd ds = None"
  by (induction ds) (auto simp: rejected_def split: sum.splits)

lemma try_delimiters_first:
  assumes "list_all (\<lambda>d. rejected (rd d)) pre" and "rd d = Inr df" and "length (columns df) > 1"
  shows "try_delimiters rd (pre @ d # post) = Some df"
  using assms by (induction pre) (auto simp: rejected_def split: sum.splits)

lemma try_delimiters_Some:
  "try_delimiters rd ds = Some df \<Longrightarrow>
     \<exists>pre d post. ds = pre @ d # post \<and> list_all (\<lambda>d. rejected (rd d)) pre \<and>
        rd d = Inr df \<and> length (columns df) > 1"
proof (induction ds)
  case Nil
  then show ?case by simp
next
  case (Cons a ds)
  show ?case
  proof (cases "rejected (rd a)")
    case True
    then have "try_delimiters rd (a # ds) = try_delimiters rd ds"
      by (auto simp: rejected_def split: sum.splits)
    with Cons obtain pre d post where
      "ds = pre @ d # post" "list_all (\<lambda>d. rejected (rd d)) pre" "rd d = Inr df"
      "length (columns df) > 1"
      by auto
    with True have "a # ds = (a # pre) @ d # post \<and> list_all (\<lambda>d. rejected (rd d)) (a # pre) \<and>
        rd d = Inr df \<and> length (columns df) > 1"
      by simp
    then show ?thesis by blast
  next
    case False
    with Cons.prems have "rd a = Inr df \<and> length (columns df) > 1"
      by (auto simp: rejected_def split: sum.splits if_splits)
    then have "a # ds = [] @ a # ds \<and> list_all (\<lambda>d. rejected (rd d)) [] \<and>
        rd a = Inr df \<and> length (columns df) > 1"
      by simp
    then show ?thesis by blast
  qed
qed

text \<open>
  C6. Let the file name end in csv or txt. The loader tries the delimiters comma, semicolon
  and tab in this order, and an attempt is rejected when the decoder raises or the table has
  at most one column. The loader returns the table of the first attempt that is not
  rejected; every table it returns has more than one column and is the decoder's for one of
  the three delimiters. When all three attempts are rejected, and only then, the loader ends
  the run with the blocking message (the specification's DecodeError): no table is
  returned, and the whole run ends with that message, so nothing is rendered.
\<close>

theorem load_file_delimited:
  assumes "endswith filename ''csv'' \<or> endswith filename ''txt''"
  shows
    "(\<forall>pre d post df.
        [CHR '','', CHR '';'', CHR 0x09] = pre @ d # post \<and>
        list_all (\<lambda>d. rejected (read_csv fl d)) pre \<and>
        read_csv fl d = Inr df \<and> length (columns df) > 1 \<longrightarrow>
        load_file read_csv read_excel filename fl = Inr df) \<and>
     (list_all (\<lambda>d. rejected (read_csv fl d)) [CHR '','', CHR '';'', CHR 0x09] \<longrightarrow>
        load_file read_csv read_excel filename fl =
          Inl (Stopped ''Could not read CSV file. Please check delimiter or file structure.'')) \<and>
     (\<forall>df. load_file read_csv read_excel filename fl = Inr df \<longrightarrow>
        length (columns df) > 1 \<and>
        (\<exists>d \<in> set [CHR '','', CHR '';'', CHR 0x09]. read_csv fl d = Inr df)) \<and>
     (\<forall>e. load_file read_csv read_excel filename fl = Inl e \<longrightarrow>
        e = Stopped ''Could not read CSV file. Please check delimiter or file structure.'' \<and>
        list_all (\<lambda>d. rejected (read_csv fl d)) [CHR '','', CHR '';'', CHR 0x09]) \<and>
     (list_all (\<lambda>d. rejected (read_csv fl d)) [CHR '','', CHR '';'', CHR 0x09] \<longrightarrow>
        dashboard read_csv read_excel fz to_datetime repr to_numeric to_csv
            filename fl region state city date1 date2 =
          Inl (Stopped ''Could not read CSV file. Please check delimiter or file structure.''))"
proof -
  let ?ds = "[CHR '','', CHR '';'', CHR 0x09]"
  let ?msg = "''Could not read CSV file. Please check delimiter or file structure.''"
  have lf: "load_file read_csv read_excel filename fl =
      (case try_delimiters (read_csv fl) ?ds of None \<Rightarrow> Inl (Stopped ?msg) | Some df \<Rightarrow> Inr df)"
    using assms unfolding load_file_def by (simp only: if_True)
  have a: "load_file read_csv read_excel filename fl = Inr df"
    if "?ds = pre @ d # post" "list_all (\<lambda>d. rejected (read_csv fl d)) pre"
       "read_csv fl d = Inr df" "length (columns df) > 1" for pre d post df
    using try_delimiters_first [OF that(2,3,4), of post] that(1) lf by simp
  have b: "load_file read_csv read_excel filename fl = Inl (Stopped ?msg)"
    if "list_all (\<lambda>d. rejected (read_csv fl d)) ?ds"
    using try_delimiters_none [OF that] lf by simp
  have c: "length (columns df) > 1 \<and> (\<exists>d \<in> set ?ds. read_csv fl d = Inr df)"
    if "load_file read_csv read_excel filename fl = Inr df" for df
  proof -
    from that lf have "try_delimiters (read_csv fl) ?ds = Some df"
      by (simp split: option.splits)
    from try_delimiters_Some [OF this] obtain pre d post where
      "?ds = pre @ d # post" "read_csv fl d = Inr df" "length (columns df) > 1"
      by blast
    moreover from this(1) have "d \<in> set ?ds"
      by (metis in_set_conv_decomp)
    ultimately show ?thesis by blast
  qed
  have d: "e = Stopped ?msg \<and> list_all (\<lambda>d. rejected (read_csv fl d)) ?ds"
    if "load_file read_csv read_excel filename fl = Inl e" for e
  proof -
    from that lf have n: "try_delimiters (read_csv fl) ?ds = None" and e: "e = Stopped ?msg"
      by (simp_all split: option.splits)
    have "list_all (\<lambda>d. rejected (read_csv fl d)) ?ds"
    proof (rule ccontr)
      assume "\<not> list_all (\<lambda>d. rejected (read_csv fl d)) ?ds"
      then have "try_delimiters (read_csv fl) ?ds \<noteq> None"
        by (auto simp: rejected_def split: sum.splits)
      with n show False by simp
    qed
    with e show ?thesis by simp
  qed
  have e: "dashboard read_csv read_excel fz to_datetime repr to_numeric to_csv
            filename fl region state city date1 date2 = Inl (Stopped ?msg)"
    if "list_all (\<lambda>d. rejected (read_csv fl d)) ?ds"
    using b [OF that] by (simp add: dashboard_def)
  from a b c d e show ?thesis by blast
qed

theorem load_file_delimited_witness:
  "(endswith ''data.csv'' ''csv'' \<or> endswith ''data.csv'' ''txt'') \<and>
   rejected (header_only_csv ''Order Date;Sales;Region'' CHR '','') \<and>
   load_file header_only_csv (\<lambda>fl. Inl ''not a spreadsheet'') ''data.csv''
       ''Order Date;Sales;Region'' =
     Inr \<lparr>columns = [''Order Date'', ''Sales'', ''Region''], rows = []\<rparr> \<and>
   list_all (\<lambda>d. rejected (header_only_csv ''Order Date Sales Region'' d))
     [CHR '','', CHR '';'', CHR 0x09] \<and>
   load_file header_only_csv (\<lambda>fl. Inl ''not a spreadsheet'') ''data.csv''
       ''Order Date Sales Region'' =
     Inl (Stopped ''Could not read CSV file. Please check delimiter or file structure.'')"
proof -
  let ?xl = "\<lambda>fl::string. Inl ''not a spreadsheet'' :: string + table"
  have name: "endswith ''data.csv'' ''csv'' \<or> endswith ''data.csv'' ''txt''"
    by (simp add: endswith_def)
  have comma: "rejected (header_only_csv ''Order Date;Sales;Region'' CHR '','')"
    by (simp add: rejected_def header_only_csv_def)
  have semi: "header_only_csv ''Order Date;Sales;Region'' CHR '';'' =
                Inr \<lparr>columns = [''Order Date'', ''Sales'', ''Region''], rows = []\<rparr>"
    by (simp add: header_only_csv_def)
  have none: "list_all (\<lambda>d. rejected (header_only_csv ''Order Date Sales Region'' d))
     [CHR '','', CHR '';'', CHR 0x09]"
    by (simp add: rejected_def header_only_csv_def)
  note thm1 = load_file_delimited [OF name, of header_only_csv "''Order Date;Sales;Region''" ?xl]
  note thm2 = load_file_delimited [OF name, of header_only_csv "''Order Date Sales Region''" ?xl]
  have 1: "load_file header_only_csv ?xl ''data.csv'' ''Order Date;Sales;Region'' =
     Inr \<lparr>columns = [''Order Date'', ''Sales'', ''Region''], rows = []\<rparr>"
  proof -
    have "[CHR '','', CHR '';'', CHR 0x09] = [CHR '',''] @ CHR '';'' # [CHR 0x09] \<and>
        list_all (\<lambda>d. rejected (header_only_csv ''Order Date;Sales;Region'' d)) [CHR '',''] \<and>
        header_only_csv ''Order Date;Sales;Region'' CHR '';'' =
          Inr \<lparr>columns = [''Order Date'', ''Sales'', ''Region''], rows = []\<rparr> \<and>
        length (columns \<lparr>columns = [''Order Date'', ''Sales'', ''Region''], rows = []\<rparr>) > 1"
      using comma semi by simp
    with thm1 show ?thesis by blast
  qed
  have 2: "load_file header_only_csv ?xl ''data.csv'' ''Order Date Sales Region'' =
     Inl (Stopped ''Could not read CSV file. Please check delimiter or file structure.'')"
    using thm2 none by blast
  from name comma 1 none 2 show ?thesis by blast
qed

subsection \<open>The download\<close>

lemma orders_months:
  "month_year [Date (Timestamp 2023 3 5 0), Date (Timestamp 2022 12 24 0), Date (Timestamp 2023 3 9 0)]
     = Inr [Str ''2023-03'', Str ''2022-12'', Str ''2023-03'']"
  by (simp add: period_str_def period_of_def zfill_def str_of_nat.simps digit_chr_numerals)

lemma orders_keys: "sort (remdups [''2023-03'', ''2022-12'', ''2023-03'']) = [''2022-12'', ''2023-03'']"
  by code_simp

lemma orders_dates:
  "getcol orders_table ''Order Date'' =
     Inr [Date (Timestamp 2023 3 5 0), Date (Timestamp 2022 12 24 0), Date (Timestamp 2023 3 9 0)]"
  by (simp add: getcol_def orders_table_def value_at_def)

lemma orders_with_months:
  "setcol orders_table ''Month_Year'' [Str ''2023-03'', Str ''2022-12'', Str ''2023-03''] =
     \<lparr>columns = [''Order Date'', ''Sales'', ''Month_Year''],
      rows =
        [[(''Order Date'', Date (Timestamp 2023 3 5 0)), (''Sales'', Num 5),
          (''Month_Year'', Str ''2023-03'')],
         [(''Order Date'', Date (Timestamp 2022 12 24 0)), (''Sales'', Num 7),
          (''Month_Year'', Str ''2022-12'')],
         [(''Order Date'', Date (Timestamp 2023 3 9 0)), (''Sales'', Num 4),
          (''Month_Year'', Str ''2023-03'')]]\<rparr>"
  by (simp add: setcol_def orders_table_def)

lemma orders_by_month:
  "groupby_sum
     \<lparr>columns = [''Order Date'', ''Sales'', ''Month_Year''],
      rows =
        [[(''Order Date'', Date (Timestamp 2023 3 5 0)), (''Sales'', Num 5),
          (''Month_Year'', Str ''2023-03'')],
         [(''Order Date'', Date (Timestamp 2022 12 24 0)), (''Sales'', Num 7),
          (''Month_Year'', Str ''2022-12'')],
         [(''Order Date'', Date (Timestamp 2023 3 9 0)), (''Sales'', Num 4),
          (''Month_Year'', Str ''2023-03'')]]\<rparr> ''Month_Year'' ''Sales'' =
     Inr \<lparr>columns = [''Month_Year'', ''Sales''],
          rows = [[(''Month_Year'', Str ''2022-12''), (''Sales'', Num 7)],
                  [(''Month_Year'', Str ''2023-03''), (''Sales'', Num 9)]]\<rparr>"
  by (simp add: groupby_sum_def getcol_def value_at_def orders_keys group_sum_def)

lemma orders_over_time:
  "sales_over_time orders_table orders_binding =
     Inr (\<lparr>columns = [''Order Date'', ''Sales'', ''Month_Year''],
      rows =
        [[(''Order Date'', Date (Timestamp 2023 3 5 0)), (''Sales'', Num 5),
          (''Month_Year'', Str ''2023-03'')],
         [(''Order Date'', Date (Timestamp 2022 12 24 0)), (''Sales'', Num 7),
          (''Month_Year'', Str ''2022-12'')],
         [(''Order Date'', Date (Timestamp 2023 3 9 0)), (''Sales'', Num 4),
          (''Month_Year'', Str ''2023-03'')]]\<rparr>,
       Some \<lparr>columns = [''Month_Year'', ''Sales''],
          rows = [[(''Month_Year'', Str ''2022-12''), (''Sales'', Num 7)],
                  [(''Month_Year'', Str ''2023-03''), (''Sales'', Num 9)]]\<rparr>)"
  by (simp add: sales_over_time_def orders_binding_def orders_dates orders_months
      orders_with_months orders_by_month Let_def del: month_year.simps)

text \<open>
  C7. The claim: the download is exactly the filtered table, with no column beyond those of
  the filtered table. The script does not keep to it when the date and the sales role are
  bound: the time series block assigns the column Month_Year to \<^verbatim>\<open>filtered_df\<close> itself,
  and the download, which comes later, serialises that table. For the filtered table of
  three orders with the headers Order Date and Sales, the serialiser is given a table with
  the headers Order Date, Sales and Month_Year.
\<close>

theorem export_has_month_year_column:
  "visualise_and_export to_csv orders_table orders_binding =
     Inr (Some \<lparr>columns = [''Month_Year'', ''Sales''],
                rows = [[(''Month_Year'', Str ''2022-12''), (''Sales'', Num 7)],
                        [(''Month_Year'', Str ''2023-03''), (''Sales'', Num 9)]]\<rparr>,
          \<lparr>data = to_csv
             \<lparr>columns = [''Order Date'', ''Sales'', ''Month_Year''],
              rows =
                [[(''Order Date'', Date (Timestamp 2023 3 5 0)), (''Sales'', Num 5),
                  (''Month_Year'', Str ''2023-03'')],
                 [(''Order Date'', Date (Timestamp 2022 12 24 0)), (''Sales'', Num 7),
                  (''Month_Year'', Str ''2022-12'')],
                 [(''Order Date'', Date (Timestamp 2023 3 9 0)), (''Sales'', Num 4),
                  (''Month_Year'', Str ''2023-03'')]]\<rparr>,
            file_name = ''Filtered_Data.csv'', mime = ''text/csv''\<rparr>) \<and>
   columns orders_table = [''Order Date'', ''Sales'']"
proof -
  have "columns orders_table = [''Order Date'', ''Sales'']"
    by (simp add: orders_table_def)
  then show ?thesis
    by (simp add: visualise_and_export_def orders_over_time download_button_def)
qed

end
